theory Spec2Isabelle
  imports Main "HOL-Library.Word" "HOL-Library.AList" "HOL-Library.Multiset" "HOL-Library.Sublist"
begin

unbundle bit_operations_syntax

section \<open>The consumed interfaces: go/types and go/doc\<close>

text \<open>
  \<^verbatim>\<open>bind/package.go\<close> works on the objects of \<^verbatim>\<open>golang.org/x/tools/go/types\<close>
  and on the documentation tree of \<^verbatim>\<open>go/doc\<close>. Both are modelled as plain data:
  every accessor the source calls is a field.

  A \<^verbatim>\<open>types.Type\<close> is compared by the source with \<^verbatim>\<open>==\<close> only against the
  type of a type name, a \<^verbatim>\<open>*types.Named\<close>; a named type is identified by its
  package path and its name. \<open>Composite k t\<close> is a type of any other kind: \<open>k\<close> is
  the Go type of its representation (\<^verbatim>\<open>*types.Slice\<close>, ...) and \<open>t\<close> tells it from
  the others of that kind.
\<close>

datatype gotype =
    Basic string
  | Named string string
  | Pointer gotype
  | Composite string string

text \<open>What \<^verbatim>\<open>%T\<close> prints for a \<^verbatim>\<open>types.Type\<close>.\<close>

fun typeKind :: "gotype \<Rightarrow> string" where
  "typeKind (Basic n) = ''*types.Basic''"
| "typeKind (Named p n) = ''*types.Named''"
| "typeKind (Pointer t) = ''*types.Pointer''"
| "typeKind (Composite k t) = k"

text \<open>The shapes \<^verbatim>\<open>named.Underlying()\<close> is switched on in \<^verbatim>\<open>process\<close>: a struct,
  or another type, given by what \<^verbatim>\<open>%v\<close> prints for it.\<close>

datatype underlying = StructU | OtherU string

text \<open>An entry of a \<^verbatim>\<open>*types.Tuple\<close>, or a receiver: a \<^verbatim>\<open>*types.Var\<close>.\<close>

record tvar =
  vName :: string
  vType :: gotype

text \<open>\<^verbatim>\<open>*types.Signature\<close>; a nil tuple is the empty list.\<close>

record signature =
  Recv :: "tvar option"
  Params :: "tvar list"
  Results :: "tvar list"

text \<open>
  \<^verbatim>\<open>types.Object\<close>. Each constructor carries \<^verbatim>\<open>Pkg()\<close> as the name of the
  package (\<open>None\<close> for the nil package of universe objects) and \<^verbatim>\<open>Name()\<close>.
  A function also carries its signature and whether \<^verbatim>\<open>Parent()\<close> is non-nil
  (it is nil for methods); a type name carries its type and that type's
  underlying shape. \<open>TOther\<close> stands for every other kind of object, and
  carries what \<^verbatim>\<open>%T\<close> prints for it (\<^verbatim>\<open>*types.PkgName\<close>, ...).
\<close>

datatype types_Object =
    TConst "string option" string gotype
  | TVar "string option" string gotype
  | TFunc "string option" string signature bool
  | TTypeName "string option" string gotype underlying
  | TOther "string option" string string

fun objPkg :: "types_Object \<Rightarrow> string option" where
  "objPkg (TConst p n t) = p"
| "objPkg (TVar p n t) = p"
| "objPkg (TFunc p n s b) = p"
| "objPkg (TTypeName p n t u) = p"
| "objPkg (TOther p n k) = p"

fun objName :: "types_Object \<Rightarrow> string" where
  "objName (TConst p n t) = n"
| "objName (TVar p n t) = n"
| "objName (TFunc p n s b) = n"
| "objName (TTypeName p n t u) = n"
| "objName (TOther p n k) = n"

text \<open>An entry of a method set: \<^verbatim>\<open>meth.Obj()\<close> and \<^verbatim>\<open>meth.Type()\<close>.\<close>

record selection =
  selObj :: types_Object
  selType :: signature

text \<open>\<^verbatim>\<open>*types.Package\<close>: its name and its scope, the objects in the order of
  \<^verbatim>\<open>scope.Names()\<close>.\<close>

record types_Package =
  pkgName :: string
  pkgScope :: "types_Object list"

definition scopeNames :: "types_Object list \<Rightarrow> string list" where
  "scopeNames scope = map objName scope"

definition scopeLookup :: "types_Object list \<Rightarrow> string \<Rightarrow> types_Object option" where
  "scopeLookup scope name = find (\<lambda>obj. objName obj = name) scope"

text \<open>\<^verbatim>\<open>doc.Value\<close>, \<^verbatim>\<open>doc.Func\<close>, \<^verbatim>\<open>doc.Type\<close> and \<^verbatim>\<open>doc.Package\<close>.\<close>

record doc_Value =
  valNames :: "string list"
  valDoc :: string

record doc_Func =
  fnName :: string
  fnDoc :: string

record doc_Type =
  typName :: string
  typDoc :: string
  typFuncs :: "doc_Func list"
  typMethods :: "doc_Func list"

record doc_Package =
  docConsts :: "doc_Value list"
  docVars :: "doc_Value list"
  docTypes :: "doc_Type list"
  docFuncs :: "doc_Func list"

text \<open>
  Functions the source calls that live outside \<^verbatim>\<open>bind/package.go\<close>, taken as
  parameters: \<^verbatim>\<open>isErrorType\<close>, \<^verbatim>\<open>isStringer\<close> and \<^verbatim>\<open>pyTypeName\<close> of the
  package's other files, and from go/types \<^verbatim>\<open>Object.Exported\<close>,
  \<^verbatim>\<open>Object.String\<close> (what \<^verbatim>\<open>%s\<close> and \<^verbatim>\<open>%v\<close> print) and
  \<open>NewMethodSet t\<close> for \<^verbatim>\<open>types.NewMethodSet(types.NewPointer(t))\<close>, the entries
  in the order of \<^verbatim>\<open>mset.At(i)\<close>.
\<close>

record extern =
  isErrorType :: "gotype \<Rightarrow> bool"
  isStringer :: "types_Object \<Rightarrow> bool"
  pyTypeName :: "gotype \<Rightarrow> string"
  Exported :: "types_Object \<Rightarrow> bool"
  objString :: "types_Object \<Rightarrow> string"
  NewMethodSet :: "gotype \<Rightarrow> selection list"

section \<open>Failures\<close>

text \<open>A returned \<^verbatim>\<open>error\<close> and a \<^verbatim>\<open>panic\<close> are kept apart.\<close>

datatype failure = Error string | Panic string

definition nilDeref :: string where
  "nilDeref = ''runtime error: invalid memory address or nil pointer dereference''"

section \<open>The model objects of package bind\<close>

text \<open>
  Modelled from the spec: the Variable Model (\<^verbatim>\<open>Var\<close>, \<^verbatim>\<open>newVar\<close>,
  \<^verbatim>\<open>newVarFrom\<close>, \<^verbatim>\<open>newVarsFrom\<close> are in a file that is not part of the
  source at hand). The spec gives a variable a semantic type, a declared name
  and the associated doc text.
\<close>

record Var =
  var_type :: gotype
  var_name :: string
  var_doc :: string

record Signature =
  sig_ret :: "Var list"
  sig_args :: "Var list"
  sig_recv :: "Var option"

text \<open>\<^verbatim>\<open>Func\<close>, \<^verbatim>\<open>Struct\<close> and \<^verbatim>\<open>Const\<close>, without the back pointer \<^verbatim>\<open>pkg\<close>
  and without \<^verbatim>\<open>Func.typ\<close>, which nothing in the file reads.\<close>

record Func =
  f_sig :: Signature
  f_name :: string
  f_id :: string
  f_doc :: string
  f_ret :: "gotype option"
  f_err :: bool
  f_ctor :: bool

type_synonym Protocol = "64 word"

definition ProtoStringer :: Protocol where
  "ProtoStringer = push_bit 0 1"

record Struct =
  s_obj :: types_Object
  s_id :: string
  s_doc :: string
  s_ctors :: "Func list"
  s_meths :: "Func list"
  s_prots :: Protocol

record Const =
  c_obj :: types_Object
  c_id :: string
  c_doc :: string
  c_f :: Func

text \<open>The interface \<^verbatim>\<open>bind.Object\<close>, as far as \<^verbatim>\<open>objs\<close> stores it.\<close>

datatype Object = OStruct Struct | OFunc Func

section \<open>The Documentation Resolver: getDoc\<close>

text \<open>The loops over \<^verbatim>\<open>p.doc.Consts\<close> and \<^verbatim>\<open>p.doc.Vars\<close> (lines 55-61, 64-70):
  the first entry one of whose names is \<open>n\<close>.\<close>

fun lookupValues :: "doc_Value list \<Rightarrow> string \<Rightarrow> string option" where
  "lookupValues [] n = None"
| "lookupValues (c # cs) n =
     (if n \<in> set (valNames c) then Some (valDoc c) else lookupValues cs n)"

text \<open>The loops over \<^verbatim>\<open>typ.Methods\<close>, \<^verbatim>\<open>typ.Funcs\<close> and \<^verbatim>\<open>p.doc.Funcs\<close>.\<close>

fun lookupFuncs :: "doc_Func list \<Rightarrow> string \<Rightarrow> string option" where
  "lookupFuncs [] n = None"
| "lookupFuncs (m # ms) n =
     (if fnName m = n then Some (fnDoc m) else lookupFuncs ms n)"

text \<open>The loop over \<^verbatim>\<open>p.doc.Types\<close> of lines 75-92: an entry of another name is
  skipped, and so is an entry that has no function of that name.\<close>

fun lookupInTypes :: "doc_Type list \<Rightarrow> string \<Rightarrow> bool \<Rightarrow> string \<Rightarrow> string option" where
  "lookupInTypes [] parent isMeth n = None"
| "lookupInTypes (typ # typs) parent isMeth n =
     (if typName typ \<noteq> parent then lookupInTypes typs parent isMeth n
      else case lookupFuncs (if isMeth then typMethods typ else typFuncs typ) n of
             Some d \<Rightarrow> Some d
           | None \<Rightarrow> lookupInTypes typs parent isMeth n)"

text \<open>The loop over \<^verbatim>\<open>p.doc.Types\<close> of lines 138-142.\<close>

fun lookupTypeDoc :: "doc_Type list \<Rightarrow> string \<Rightarrow> string option" where
  "lookupTypeDoc [] n = None"
| "lookupTypeDoc (t # ts) n = (if n = typName t then Some (typDoc t) else lookupTypeDoc ts n)"

text \<open>The closure \<^verbatim>\<open>doc := func() string {...}()\<close> of lines 73-101, before the
  final \<^verbatim>\<open>return ""\<close>.\<close>

definition funcDocLookup :: "doc_Package \<Rightarrow> string \<Rightarrow> string \<Rightarrow> bool \<Rightarrow> string option" where
  "funcDocLookup d parent n hasParent =
     (if \<not> hasParent \<or> (hasParent \<and> parent \<noteq> '''')
      then lookupInTypes (docTypes d) parent (\<not> hasParent) n
      else lookupFuncs (docFuncs d) n)"

definition orEmpty :: "string option \<Rightarrow> string" where
  "orEmpty r = (case r of Some d \<Rightarrow> d | None \<Rightarrow> '''')"

text \<open>\<^verbatim>\<open>strings.Join\<close>.\<close>

fun join :: "string list \<Rightarrow> string \<Rightarrow> string" where
  "join [] sep = ''''"
| "join [x] sep = x"
| "join (x # y # ys) sep = x @ sep @ join (y # ys) sep"

text \<open>The closure \<^verbatim>\<open>parseFn\<close> of lines 105-119.\<close>

definition parseFn :: "extern \<Rightarrow> tvar list \<Rightarrow> string list" where
  "parseFn ext tup =
     map (\<lambda>paramVar.
            if vName paramVar \<noteq> ''''
            then pyTypeName ext (vType paramVar) @ '' '' @ vName paramVar
            else pyTypeName ext (vType paramVar)) tup"

text \<open>\<^verbatim>\<open>docSig\<close> of line 128.\<close>

definition docSig :: "extern \<Rightarrow> string \<Rightarrow> signature \<Rightarrow> string" where
  "docSig ext n sig =
     n @ ''('' @ join (parseFn ext (Params sig)) '', '' @ '') ''
       @ join (parseFn ext (Results sig)) '', ''"

definition newline :: char where
  "newline = CHR 0x0A"

fun getDoc :: "extern \<Rightarrow> doc_Package \<Rightarrow> string \<Rightarrow> types_Object \<Rightarrow> failure + string" where
  "getDoc ext d parent (TConst p n t) = Inr (orEmpty (lookupValues (docConsts d) n))"
| "getDoc ext d parent (TVar p n t) = Inr (orEmpty (lookupValues (docVars d) n))"
| "getDoc ext d parent (TFunc p n sig hasParent) =
     (let doc = orEmpty (funcDocLookup d parent n hasParent) in
      if doc \<noteq> ''''
      then Inr (docSig ext n sig @ [newline, newline] @ doc)
      else Inr (docSig ext n sig))"
| "getDoc ext d parent (TTypeName p n t u) = Inr (orEmpty (lookupTypeDoc (docTypes d) n))"
| "getDoc ext d parent (TOther p n k) =
     Inl (Panic (''not yet supported: '' @ objString ext (TOther p n k) @ '' ('' @ k @ '')''))"

section \<open>The Callable Model Builder: newFuncFrom\<close>

text \<open>Modelled from the spec: \<^verbatim>\<open>newVarFrom\<close> and \<^verbatim>\<open>newVarsFrom\<close>, which are not
  in the source at hand; the doc text of a variable is what the Documentation
  Resolver finds for a variable of that name at package scope.\<close>

definition newVarFrom :: "doc_Package \<Rightarrow> tvar \<Rightarrow> Var" where
  "newVarFrom d v =
     \<lparr>var_type = vType v, var_name = vName v,
      var_doc = orEmpty (lookupValues (docVars d) (vName v))\<rparr>"

definition newVarsFrom :: "doc_Package \<Rightarrow> tvar list \<Rightarrow> Var list" where
  "newVarsFrom d tup = map (newVarFrom d) tup"

definition newSignatureFrom :: "doc_Package \<Rightarrow> signature \<Rightarrow> Signature" where
  "newSignatureFrom d sig =
     \<lparr>sig_ret = newVarsFrom d (Results sig),
      sig_args = newVarsFrom d (Params sig),
      sig_recv = map_option (newVarFrom d) (Recv sig)\<rparr>"

text \<open>The \<^verbatim>\<open>switch res.Len()\<close> of lines 384-406: the error flag and the return
  type, or the returned error.\<close>

definition resultShape ::
  "extern \<Rightarrow> types_Object \<Rightarrow> tvar list \<Rightarrow> failure + (bool \<times> gotype option)" where
  "resultShape ext obj res =
     (if length res = 2 then
        if \<not> isErrorType ext (vType (res ! 1))
        then Inl (Error (''bind: second result value must be of type error: ''
                          @ objString ext obj))
        else Inr (True, Some (vType (res ! 0)))
      else if length res = 1 then
        if isErrorType ext (vType (res ! 0)) then Inr (True, None)
        else Inr (False, Some (vType (res ! 0)))
      else if length res = 0 then Inr (False, None)
      else Inl (Error (''bind: too many results to return: '' @ objString ext obj)))"

text \<open>\<^verbatim>\<open>id\<close> of lines 408-411; \<^verbatim>\<open>obj.Pkg().Name()\<close> on a nil package panics.\<close>

definition funcId :: "string \<Rightarrow> string \<Rightarrow> string \<Rightarrow> string" where
  "funcId pn parent n =
     (if parent \<noteq> '''' then pn @ ''_'' @ parent @ ''_'' @ n else pn @ ''_'' @ n)"

definition newFuncFrom ::
  "extern \<Rightarrow> doc_Package \<Rightarrow> string \<Rightarrow> types_Object \<Rightarrow> signature \<Rightarrow> failure + Func" where
  "newFuncFrom ext d parent obj sig =
     (case resultShape ext obj (Results sig) of
        Inl e \<Rightarrow> Inl e
      | Inr (haserr, ret) \<Rightarrow>
          (case objPkg obj of
             None \<Rightarrow> Inl (Panic nilDeref)
           | Some pn \<Rightarrow>
               (case getDoc ext d parent obj of
                  Inl e \<Rightarrow> Inl e
                | Inr doc \<Rightarrow>
                    Inr \<lparr>f_sig = newSignatureFrom d sig,
                         f_name = objName obj,
                         f_id = funcId pn parent (objName obj),
                         f_doc = doc,
                         f_ret = ret,
                         f_err = haserr,
                         f_ctor = False\<rparr>)))"

section \<open>The Package Model and process\<close>

text \<open>Modelled from the spec: the Symbol Table (\<^verbatim>\<open>symtab\<close>, \<^verbatim>\<open>newSymtab\<close> and
  \<^verbatim>\<open>addSymbol\<close> are not in the source at hand): a registry keyed by name, where
  registering a name again overwrites the entry.\<close>

type_synonym symtab = "string \<rightharpoonup> types_Object"

definition newSymtab :: symtab where
  "newSymtab = Map.empty"

definition addSymbol :: "symtab \<Rightarrow> types_Object \<Rightarrow> symtab" where
  "addSymbol st obj = st(objName obj \<mapsto> obj)"

record Package =
  p_pkg :: types_Package
  p_doc :: doc_Package
  p_syms :: symtab
  p_objs :: "string \<rightharpoonup> Object"
  p_consts :: "Const list"
  p_vars :: "Var list"
  p_structs :: "Struct list"
  p_funcs :: "Func list"

text \<open>Modelled from the spec: \<^verbatim>\<open>newVar\<close>, not in the source at hand; its
  \<^verbatim>\<open>objname\<close> argument only feeds an identity the spec's Variable Model
  does not have.\<close>

definition newVar :: "gotype \<Rightarrow> string \<Rightarrow> string \<Rightarrow> string \<Rightarrow> Var" where
  "newVar typ objname name doc = \<lparr>var_type = typ, var_name = name, var_doc = doc\<rparr>"

definition newSignature :: "Var option \<Rightarrow> Var list \<Rightarrow> Var list \<Rightarrow> Signature" where
  "newSignature recv params results = \<lparr>sig_ret = results, sig_args = params, sig_recv = recv\<rparr>"

text \<open>\<^verbatim>\<open>newConst\<close> on a \<^verbatim>\<open>*types.Const\<close> with package \<open>pk\<close>, name \<open>n\<close> and type
  \<open>t\<close>.\<close>

definition newConst ::
  "extern \<Rightarrow> doc_Package \<Rightarrow> string option \<Rightarrow> string \<Rightarrow> gotype \<Rightarrow> failure + Const" where
  "newConst ext d pk n t =
     (case pk of
        None \<Rightarrow> Inl (Panic nilDeref)
      | Some pn \<Rightarrow>
          (case getDoc ext d '''' (TConst pk n t) of
             Inl e \<Rightarrow> Inl e
           | Inr doc \<Rightarrow>
               Inr \<lparr>c_obj = TConst pk n t,
                    c_id = pn @ ''_'' @ n,
                    c_doc = doc,
                    c_f = \<lparr>f_sig = newSignature None [] [newVar t ''ret'' n doc],
                           f_name = n,
                           f_id = ''get_'' @ (pn @ ''_'' @ n),
                           f_doc = doc,
                           f_ret = Some t,
                           f_err = False,
                           f_ctor = False\<rparr>\<rparr>))"

definition newStruct :: "extern \<Rightarrow> doc_Package \<Rightarrow> types_Object \<Rightarrow> failure + Struct" where
  "newStruct ext d obj =
     (case objPkg obj of
        None \<Rightarrow> Inl (Panic nilDeref)
      | Some pn \<Rightarrow>
          (case getDoc ext d '''' obj of
             Inl e \<Rightarrow> Inl e
           | Inr doc \<Rightarrow>
               Inr \<lparr>s_obj = obj, s_id = pn @ ''_'' @ objName obj, s_doc = doc,
                    s_ctors = [], s_meths = [], s_prots = 0\<rparr>))"

text \<open>\<^verbatim>\<open>obj.Type()\<close> of a type name, the only kind of object a \<^verbatim>\<open>Struct\<close> is
  built from.\<close>

fun typeNameType :: "types_Object \<Rightarrow> gotype option" where
  "typeNameType (TTypeName p n t u) = Some t"
| "typeNameType obj = None"

definition s_GoType :: "Struct \<Rightarrow> gotype option" where
  "s_GoType s = typeNameType (s_obj s)"

definition s_GoName :: "Struct \<Rightarrow> string" where
  "s_GoName s = objName (s_obj s)"

definition f_GoName :: "Func \<Rightarrow> string" where
  "f_GoName f = f_name f"

definition f_Return :: "Func \<Rightarrow> gotype option" where
  "f_Return f = f_ret f"

definition addConst :: "Package \<Rightarrow> Const \<Rightarrow> Package" where
  "addConst p c = p\<lparr>p_consts := p_consts p @ [c]\<rparr>"

definition addVar :: "Package \<Rightarrow> Var \<Rightarrow> Package" where
  "addVar p v = p\<lparr>p_vars := p_vars p @ [v]\<rparr>"

definition addStruct :: "Package \<Rightarrow> Struct \<Rightarrow> Package" where
  "addStruct p s =
     p\<lparr>p_structs := p_structs p @ [s], p_objs := (p_objs p)(s_GoName s \<mapsto> OStruct s)\<rparr>"

definition addFunc :: "Package \<Rightarrow> Func \<Rightarrow> Package" where
  "addFunc p f =
     p\<lparr>p_funcs := p_funcs p @ [f], p_objs := (p_objs p)(f_GoName f \<mapsto> OFunc f)\<rparr>"

definition Lookup :: "Package \<Rightarrow> types_Object \<Rightarrow> Object option" where
  "Lookup p obj = p_objs p (objName obj)"

text \<open>
  The working maps \<^verbatim>\<open>funcs\<close> and \<^verbatim>\<open>structs\<close> of \<^verbatim>\<open>process\<close> are association
  lists with one entry per key: \<^verbatim>\<open>m[k] = v\<close> is \<open>AList.update\<close>, \<^verbatim>\<open>delete(m, k)\<close>
  is \<open>AList.delete\<close>, a read is \<open>map_of\<close>.
\<close>

type_synonym funcsMap = "(string \<times> Func) list"
type_synonym structsMap = "(string \<times> Struct) list"

text \<open>The body of the loop over \<^verbatim>\<open>scope.Names()\<close>, lines 161-198. A name the
  scope does not hold would make \<^verbatim>\<open>obj\<close> nil.\<close>

definition classify ::
  "extern \<Rightarrow> string \<Rightarrow> Package \<times> funcsMap \<times> structsMap
     \<Rightarrow> failure + Package \<times> funcsMap \<times> structsMap" where
  "classify ext name w =
     (case w of (p, funcs, structs) \<Rightarrow>
        (case scopeLookup (pkgScope (p_pkg p)) name of
           None \<Rightarrow> Inl (Panic nilDeref)
         | Some obj \<Rightarrow>
             if \<not> Exported ext obj then Inr w
             else
               let p = p\<lparr>p_syms := addSymbol (p_syms p) obj\<rparr> in
               (case obj of
                  TConst pk n t \<Rightarrow>
                    (case newConst ext (p_doc p) pk n t of
                       Inl e \<Rightarrow> Inl e
                     | Inr c \<Rightarrow> Inr (addConst p c, funcs, structs))
                | TVar pk n t \<Rightarrow>
                    Inr (addVar p (newVarFrom (p_doc p) \<lparr>vName = n, vType = t\<rparr>),
                         funcs, structs)
                | TFunc pk n sig hasParent \<Rightarrow>
                    (case newFuncFrom ext (p_doc p) '''' obj sig of
                       Inl e \<Rightarrow> Inl e
                     | Inr f \<Rightarrow> Inr (p, AList.update name f funcs, structs))
                | TTypeName pk n t u \<Rightarrow>
                    (case t of
                       Named pp nn \<Rightarrow>
                         (case u of
                            StructU \<Rightarrow>
                              (case newStruct ext (p_doc p) obj of
                                 Inl e \<Rightarrow> Inl e
                               | Inr s \<Rightarrow> Inr (p, funcs, AList.update name s structs))
                          | OtherU typ \<Rightarrow>
                              Inl (Panic (''not yet supported: '' @ typ
                                            @ '' (*types.TypeName)'')))
                     | _ \<Rightarrow>
                         Inl (Panic (''interface conversion: types.Type is '' @ typeKind t
                                       @ '', not *types.Named'')))
                | TOther pk n k \<Rightarrow>
                    Inl (Panic (''not yet supported: '' @ objString ext obj
                                  @ '' ('' @ k @ '')'')))))"

fun classifyAll ::
  "extern \<Rightarrow> string list \<Rightarrow> Package \<times> funcsMap \<times> structsMap
     \<Rightarrow> failure + Package \<times> funcsMap \<times> structsMap" where
  "classifyAll ext [] w = Inr w"
| "classifyAll ext (name # names) w =
     (case classify ext name w of
        Inl e \<Rightarrow> Inl e
      | Inr w' \<Rightarrow> classifyAll ext names w')"

text \<open>
  Go leaves the order of a \<^verbatim>\<open>range\<close> over a map open. Each of the three such
  loops of \<^verbatim>\<open>process\<close> takes its order from a schedule: a function from the keys
  the map holds when the loop starts to the order they are visited in (the
  inner loop has one order for each struct it runs for). A key whose entry is
  gone when its turn comes is skipped.
\<close>

record schedule =
  structsOrder :: "string list \<Rightarrow> string list"
  funcsOrder :: "string \<Rightarrow> string list \<Rightarrow> string list"
  restOrder :: "string list \<Rightarrow> string list"

definition valid_schedule :: "schedule \<Rightarrow> bool" where
  "valid_schedule sch \<longleftrightarrow>
     (\<forall>ks. mset (structsOrder sch ks) = mset ks) \<and>
     (\<forall>sname ks. mset (funcsOrder sch sname ks) = mset ks) \<and>
     (\<forall>ks. mset (restOrder sch ks) = mset ks)"

text \<open>The loop over \<^verbatim>\<open>funcs\<close> of lines 205-216, for the struct \<open>s\<close> named
  \<open>sname\<close>. The write \<^verbatim>\<open>structs[sname] = s\<close> goes to the entry being visited,
  which is not read again.\<close>

fun claimCtors ::
  "extern \<Rightarrow> doc_Package \<Rightarrow> types_Object list \<Rightarrow> string \<Rightarrow> string list
     \<Rightarrow> funcsMap \<times> Struct \<Rightarrow> failure + funcsMap \<times> Struct" where
  "claimCtors ext d scope sname [] w = Inr w"
| "claimCtors ext d scope sname (name # names) (funcs, s) =
     (case map_of funcs name of
        None \<Rightarrow> claimCtors ext d scope sname names (funcs, s)
      | Some fct \<Rightarrow>
          if f_Return fct = None then claimCtors ext d scope sname names (funcs, s)
          else if f_Return fct = s_GoType s then
            (case scopeLookup scope name of
               None \<Rightarrow> Inl (Panic nilDeref)
             | Some obj \<Rightarrow>
                 (case getDoc ext d sname obj of
                    Inl e \<Rightarrow> Inl e
                  | Inr doc \<Rightarrow>
                      claimCtors ext d scope sname names
                        (AList.delete name funcs,
                         s\<lparr>s_ctors := s_ctors s @ [fct\<lparr>f_doc := doc, f_ctor := True\<rparr>]\<rparr>)))
          else claimCtors ext d scope sname names (funcs, s))"

text \<open>The loop over the method set, lines 220-233.\<close>

fun addMeths ::
  "extern \<Rightarrow> doc_Package \<Rightarrow> string \<Rightarrow> selection list \<Rightarrow> Struct \<Rightarrow> failure + Struct" where
  "addMeths ext d sname [] s = Inr s"
| "addMeths ext d sname (meth # meths) s =
     (if \<not> Exported ext (selObj meth) then addMeths ext d sname meths s
      else
        (case newFuncFrom ext d sname (selObj meth) (selType meth) of
           Inl e \<Rightarrow> Inl e
         | Inr m \<Rightarrow>
             addMeths ext d sname meths
               (let s1 = s\<lparr>s_meths := s_meths s @ [m]\<rparr> in
                if isStringer ext (selObj meth)
                then s1\<lparr>s_prots := s_prots s1 OR ProtoStringer\<rparr>
                else s1)))"

text \<open>\<^verbatim>\<open>types.NewMethodSet(types.NewPointer(s.GoType()))\<close>.\<close>

definition methodSetOf :: "extern \<Rightarrow> Struct \<Rightarrow> selection list" where
  "methodSetOf ext s = (case s_GoType s of Some t \<Rightarrow> NewMethodSet ext t | None \<Rightarrow> [])"

text \<open>The loop over \<^verbatim>\<open>structs\<close>, lines 204-235.\<close>

fun reclassify ::
  "extern \<Rightarrow> schedule \<Rightarrow> structsMap \<Rightarrow> string list \<Rightarrow> Package \<times> funcsMap
     \<Rightarrow> failure + Package \<times> funcsMap" where
  "reclassify ext sch structs [] w = Inr w"
| "reclassify ext sch structs (sname # snames) (p, funcs) =
     (case map_of structs sname of
        None \<Rightarrow> reclassify ext sch structs snames (p, funcs)
      | Some s \<Rightarrow>
          (case claimCtors ext (p_doc p) (pkgScope (p_pkg p)) sname
                  (funcsOrder sch sname (map fst funcs)) (funcs, s) of
             Inl e \<Rightarrow> Inl e
           | Inr (funcs', s') \<Rightarrow>
               (case addMeths ext (p_doc p) sname (methodSetOf ext s') s' of
                  Inl e \<Rightarrow> Inl e
                | Inr s'' \<Rightarrow> reclassify ext sch structs snames (addStruct p s'', funcs'))))"

text \<open>The loop of lines 237-239.\<close>

fun addFuncs :: "funcsMap \<Rightarrow> string list \<Rightarrow> Package \<Rightarrow> Package" where
  "addFuncs funcs [] p = p"
| "addFuncs funcs (name # names) p =
     (case map_of funcs name of
        None \<Rightarrow> addFuncs funcs names p
      | Some fct \<Rightarrow> addFuncs funcs names (addFunc p fct))"

text \<open>\<^verbatim>\<open>process\<close>. The loop of lines 241-243 only prints the symbol table.\<close>

definition process :: "extern \<Rightarrow> schedule \<Rightarrow> Package \<Rightarrow> failure + Package" where
  "process ext sch p =
     (case classifyAll ext (scopeNames (pkgScope (p_pkg p))) (p, [], []) of
        Inl e \<Rightarrow> Inl e
      | Inr (p1, funcs, structs) \<Rightarrow>
          (case reclassify ext sch structs (structsOrder sch (map fst structs)) (p1, funcs) of
             Inl e \<Rightarrow> Inl e
           | Inr (p2, funcs') \<Rightarrow>
               Inr (addFuncs funcs' (restOrder sch (map fst funcs')) p2)))"

definition NewPackage ::
  "extern \<Rightarrow> schedule \<Rightarrow> types_Package \<Rightarrow> doc_Package \<Rightarrow> failure + Package" where
  "NewPackage ext sch pkg doc =
     process ext sch
       \<lparr>p_pkg = pkg, p_doc = doc, p_syms = newSymtab, p_objs = Map.empty,
        p_consts = [], p_vars = [], p_structs = [], p_funcs = []\<rparr>"

section \<open>What the loops of process compute\<close>

text \<open>The functions of this section are not in the source: they say in closed
  form what a loop of \<^verbatim>\<open>process\<close> has done when it ends, and the lemmas below
  prove that the loops compute them.\<close>

text \<open>The test of lines 206-209: \<open>f\<close> has a return type, and it is the type of
  \<open>s\<close>.\<close>

definition matches :: "Struct \<Rightarrow> Func \<Rightarrow> bool" where
  "matches s f \<longleftrightarrow> f_Return f \<noteq> None \<and> f_Return f = s_GoType s"

text \<open>The entries of \<open>funcs\<close> the inner loop moves to \<open>s\<close>, in the order \<open>names\<close>
  of its visit.\<close>

definition claimed :: "funcsMap \<Rightarrow> Struct \<Rightarrow> string list \<Rightarrow> (string \<times> Func) list" where
  "claimed funcs s names =
     List.map_filter
       (\<lambda>k. case map_of funcs k of
               None \<Rightarrow> None
             | Some f \<Rightarrow> if matches s f then Some (k, f) else None) names"

text \<open>The constructor made of the entry \<open>(k, f)\<close> for the struct named \<open>sname\<close>
  (lines 211-212).\<close>

definition ctorDoc ::
  "extern \<Rightarrow> doc_Package \<Rightarrow> types_Object list \<Rightarrow> string \<Rightarrow> string \<Rightarrow> string" where
  "ctorDoc ext d scope sname k =
     (case scopeLookup scope k of
        None \<Rightarrow> ''''
      | Some obj \<Rightarrow> (case getDoc ext d sname obj of Inr doc \<Rightarrow> doc | Inl e \<Rightarrow> ''''))"

definition ctorOf ::
  "extern \<Rightarrow> doc_Package \<Rightarrow> types_Object list \<Rightarrow> string \<Rightarrow> string \<times> Func \<Rightarrow> Func" where
  "ctorOf ext d scope sname kf =
     (snd kf)\<lparr>f_doc := ctorDoc ext d scope sname (fst kf), f_ctor := True\<rparr>"

text \<open>The models of the exported methods of a method set, in its order.\<close>

definition methodModels :: "extern \<Rightarrow> doc_Package \<Rightarrow> string \<Rightarrow> selection list \<Rightarrow> Func list" where
  "methodModels ext d sname ms =
     concat (map (\<lambda>m. case newFuncFrom ext d sname (selObj m) (selType m) of
                        Inr f \<Rightarrow> [f]
                      | Inl e \<Rightarrow> [])
                 (filter (\<lambda>m. Exported ext (selObj m)) ms))"

definition protsAfter :: "extern \<Rightarrow> selection list \<Rightarrow> Protocol \<Rightarrow> Protocol" where
  "protsAfter ext ms pr =
     (if \<exists>m \<in> set ms. Exported ext (selObj m) \<and> isStringer ext (selObj m)
      then pr OR ProtoStringer else pr)"

text \<open>What one round of the loop over \<open>structs\<close> leaves of \<open>funcs\<close>, and the
  struct it adds to the package.\<close>

definition unclaimed :: "Struct \<Rightarrow> funcsMap \<Rightarrow> funcsMap" where
  "unclaimed s funcs = filter (\<lambda>kf. \<not> matches s (snd kf)) funcs"

definition structModel ::
  "extern \<Rightarrow> schedule \<Rightarrow> doc_Package \<Rightarrow> types_Object list \<Rightarrow> funcsMap \<Rightarrow> string \<Rightarrow> Struct
     \<Rightarrow> Struct" where
  "structModel ext sch d scope funcs sname s =
     s\<lparr>s_ctors := s_ctors s @
          map (ctorOf ext d scope sname)
            (claimed funcs s (funcsOrder sch sname (map fst funcs))),
       s_meths := s_meths s @ methodModels ext d sname (methodSetOf ext s),
       s_prots := protsAfter ext (methodSetOf ext s) (s_prots s)\<rparr>"

text \<open>The structs the loop adds when it visits \<open>snames\<close> in turn, and what is
  left of \<open>funcs\<close> after it.\<close>

fun structModels ::
  "extern \<Rightarrow> schedule \<Rightarrow> doc_Package \<Rightarrow> types_Object list \<Rightarrow> structsMap \<Rightarrow> string list
     \<Rightarrow> funcsMap \<Rightarrow> Struct list" where
  "structModels ext sch d scope structs [] funcs = []"
| "structModels ext sch d scope structs (sname # snames) funcs =
     (case map_of structs sname of
        None \<Rightarrow> structModels ext sch d scope structs snames funcs
      | Some s \<Rightarrow>
          structModel ext sch d scope funcs sname s
            # structModels ext sch d scope structs snames (unclaimed s funcs))"

fun remaining :: "structsMap \<Rightarrow> string list \<Rightarrow> funcsMap \<Rightarrow> funcsMap" where
  "remaining structs [] funcs = funcs"
| "remaining structs (sname # snames) funcs =
     (case map_of structs sname of
        None \<Rightarrow> remaining structs snames funcs
      | Some s \<Rightarrow> remaining structs snames (unclaimed s funcs))"

text \<open>The entries \<open>addStruct\<close> and \<open>addFunc\<close> write to \<open>objs\<close>.\<close>

definition structObj :: "Struct \<Rightarrow> string \<times> Object" where
  "structObj s = (s_GoName s, OStruct s)"

definition funcObj :: "Func \<Rightarrow> string \<times> Object" where
  "funcObj f = (f_GoName f, OFunc f)"

text \<open>The functions the last loop appends when it visits \<open>names\<close> in turn.\<close>

definition funcModels :: "funcsMap \<Rightarrow> string list \<Rightarrow> Func list" where
  "funcModels funcs names = List.map_filter (map_of funcs) names"

text \<open>Where the entries that the walk over the scope collects come from: the
  exported object of that name in the scope, and the model built of it.\<close>

definition funcEntry ::
  "extern \<Rightarrow> doc_Package \<Rightarrow> types_Object list \<Rightarrow> string \<Rightarrow> Func \<Rightarrow> bool" where
  "funcEntry ext d scope k f \<longleftrightarrow>
     (\<exists>pk sig hp. scopeLookup scope k = Some (TFunc pk k sig hp) \<and>
        Exported ext (TFunc pk k sig hp) \<and>
        newFuncFrom ext d '''' (TFunc pk k sig hp) sig = Inr f)"

definition structEntry ::
  "extern \<Rightarrow> doc_Package \<Rightarrow> types_Object list \<Rightarrow> string \<Rightarrow> Struct \<Rightarrow> bool" where
  "structEntry ext d scope k s \<longleftrightarrow>
     (\<exists>pk pp nn. scopeLookup scope k = Some (TTypeName pk k (Named pp nn) StructU) \<and>
        Exported ext (TTypeName pk k (Named pp nn) StructU) \<and>
        newStruct ext d (TTypeName pk k (Named pp nn) StructU) = Inr s)"

definition constEntry ::
  "extern \<Rightarrow> doc_Package \<Rightarrow> types_Object list \<Rightarrow> Const \<Rightarrow> bool" where
  "constEntry ext d scope c \<longleftrightarrow>
     (\<exists>pk n t. scopeLookup scope n = Some (TConst pk n t) \<and>
        Exported ext (TConst pk n t) \<and> newConst ext d pk n t = Inr c)"

definition varEntry ::
  "extern \<Rightarrow> doc_Package \<Rightarrow> types_Object list \<Rightarrow> Var \<Rightarrow> bool" where
  "varEntry ext d scope v \<longleftrightarrow>
     (\<exists>pk n t. scopeLookup scope n = Some (TVar pk n t) \<and>
        Exported ext (TVar pk n t) \<and> v = newVarFrom d \<lparr>vName = n, vType = t\<rparr>)"

definition exportedName :: "extern \<Rightarrow> types_Object list \<Rightarrow> string \<Rightarrow> bool" where
  "exportedName ext scope k \<longleftrightarrow>
     (case scopeLookup scope k of None \<Rightarrow> False | Some obj \<Rightarrow> Exported ext obj)"

text \<open>What holds of the state of the walk, started from the package \<open>p0\<close>.\<close>

definition walked ::
  "extern \<Rightarrow> Package \<Rightarrow> Package \<times> funcsMap \<times> structsMap \<Rightarrow> bool" where
  "walked ext p0 w \<longleftrightarrow>
     (case w of (p, F, S) \<Rightarrow>
        p_pkg p = p_pkg p0 \<and> p_doc p = p_doc p0 \<and> p_objs p = p_objs p0 \<and>
        p_structs p = p_structs p0 \<and> p_funcs p = p_funcs p0 \<and>
        distinct (map fst F) \<and> distinct (map fst S) \<and>
        (\<forall>kf \<in> set F. funcEntry ext (p_doc p0) (pkgScope (p_pkg p0)) (fst kf) (snd kf)) \<and>
        (\<forall>ks \<in> set S. structEntry ext (p_doc p0) (pkgScope (p_pkg p0)) (fst ks) (snd ks)) \<and>
        (\<forall>k \<in> dom (p_syms p). exportedName ext (pkgScope (p_pkg p0)) k) \<and>
        (\<forall>c \<in> set (p_consts p). constEntry ext (p_doc p0) (pkgScope (p_pkg p0)) c) \<and>
        (\<forall>v \<in> set (p_vars p). varEntry ext (p_doc p0) (pkgScope (p_pkg p0)) v))"

text \<open>A struct and an entry of \<open>objs\<close> up to the order of the constructor list,
  which \<^verbatim>\<open>process\<close> fills while it ranges over a map: the constructors of the
  struct as a multiset.\<close>

definition structUpToOrder :: "Struct \<Rightarrow> Struct \<times> Func multiset" where
  "structUpToOrder s = (s\<lparr>s_ctors := []\<rparr>, mset (s_ctors s))"

fun objUpToOrder :: "Object \<Rightarrow> (Struct \<times> Func multiset) + Func" where
  "objUpToOrder (OStruct s) = Inl (structUpToOrder s)"
| "objUpToOrder (OFunc f) = Inr f"

text \<open>The struct of the entry \<open>(k, s)\<close> of \<open>structs\<close> up to order, when \<open>funcs\<close> are
  the functions the walk collected.\<close>

definition canonStruct ::
  "extern \<Rightarrow> doc_Package \<Rightarrow> types_Object list \<Rightarrow> funcsMap \<Rightarrow> string \<Rightarrow> Struct
     \<Rightarrow> Struct \<times> Func multiset" where
  "canonStruct ext d scope funcs k s =
     (s\<lparr>s_ctors := [],
        s_meths := s_meths s @ methodModels ext d k (methodSetOf ext s),
        s_prots := protsAfter ext (methodSetOf ext s) (s_prots s)\<rparr>,
      mset (s_ctors s) +
        image_mset (ctorOf ext d scope k)
          (filter_mset (\<lambda>kf. matches s (snd kf)) (mset funcs)))"

section \<open>Example modules\<close>

text \<open>Concrete collaborators and modules, on which the theorems below are
  instantiated. \<open>ex_ext\<close> takes the universe type \<^verbatim>\<open>error\<close> for the error type,
  a method \<^verbatim>\<open>String() string\<close> for a stringer, and a name that starts with
  an ASCII capital for an exported one.\<close>

definition errorType :: gotype where
  "errorType = Named '''' ''error''"

definition tInt :: gotype where
  "tInt = Basic ''int''"

definition tString :: gotype where
  "tString = Basic ''string''"

definition unnamed :: "gotype \<Rightarrow> tvar" where
  "unnamed t = \<lparr>vName = '''', vType = t\<rparr>"

definition param :: "string \<Rightarrow> gotype \<Rightarrow> tvar" where
  "param n t = \<lparr>vName = n, vType = t\<rparr>"

definition ex_ext :: extern where
  "ex_ext =
     \<lparr>isErrorType = (\<lambda>t. t = errorType),
      isStringer = (\<lambda>obj. case obj of
                       TFunc p n sig hasParent \<Rightarrow>
                         n = ''String'' \<and> Recv sig \<noteq> None \<and> Params sig = []
                           \<and> map vType (Results sig) = [tString]
                     | _ \<Rightarrow> False),
      pyTypeName = (\<lambda>t. case t of Basic n \<Rightarrow> n | Named p n \<Rightarrow> n | _ \<Rightarrow> ''object''),
      Exported = (\<lambda>obj. case objName obj of
                     [] \<Rightarrow> False
                   | c # cs \<Rightarrow> c \<in> set ''ABCDEFGHIJKLMNOPQRSTUVWXYZ''),
      objString = (\<lambda>obj. ''func '' @ objName obj),
      NewMethodSet = (\<lambda>t. [])\<rparr>"

definition sched_id :: schedule where
  "sched_id = \<lparr>structsOrder = (\<lambda>ks. ks), funcsOrder = (\<lambda>sname ks. ks), restOrder = (\<lambda>ks. ks)\<rparr>"

definition sched_rev :: schedule where
  "sched_rev = \<lparr>structsOrder = rev, funcsOrder = (\<lambda>sname. rev), restOrder = rev\<rparr>"

definition no_doc :: doc_Package where
  "no_doc = \<lparr>docConsts = [], docVars = [], docTypes = [], docFuncs = []\<rparr>"

text \<open>The functions of the spec's examples: \<^verbatim>\<open>Divide(a, b int) (int, error)\<close>,
  \<^verbatim>\<open>Validate(s string) error\<close>, \<^verbatim>\<open>Sum(a, b int) (int, int, error)\<close>, and with
  them \<^verbatim>\<open>Reset()\<close>, \<^verbatim>\<open>Count() int\<close> and \<^verbatim>\<open>Pair() (int, int)\<close>.\<close>

definition sig_Divide :: signature where
  "sig_Divide = \<lparr>Recv = None, Params = [param ''a'' tInt, param ''b'' tInt],
                 Results = [unnamed tInt, unnamed errorType]\<rparr>"

definition sig_Validate :: signature where
  "sig_Validate = \<lparr>Recv = None, Params = [param ''s'' tString], Results = [unnamed errorType]\<rparr>"

definition sig_Sum :: signature where
  "sig_Sum = \<lparr>Recv = None, Params = [param ''a'' tInt, param ''b'' tInt],
              Results = [unnamed tInt, unnamed tInt, unnamed errorType]\<rparr>"

definition sig_Reset :: signature where
  "sig_Reset = \<lparr>Recv = None, Params = [], Results = []\<rparr>"

definition sig_Count :: signature where
  "sig_Count = \<lparr>Recv = None, Params = [], Results = [unnamed tInt]\<rparr>"

definition sig_Pair :: signature where
  "sig_Pair = \<lparr>Recv = None, Params = [], Results = [unnamed tInt, unnamed tInt]\<rparr>"

definition topFunc :: "string \<Rightarrow> string \<Rightarrow> signature \<Rightarrow> types_Object" where
  "topFunc pn n sig = TFunc (Some pn) n sig True"

definition calc_doc :: doc_Package where
  "calc_doc =
     \<lparr>docConsts = [\<lparr>valNames = [''E'', ''Pi''], valDoc = ''Mathematical constants.''\<rparr>],
      docVars = [],
      docTypes = [],
      docFuncs = [\<lparr>fnName = ''Divide'', fnDoc = ''Divide divides a by b.''\<rparr>,
                  \<lparr>fnName = ''Count'', fnDoc = ''''\<rparr>]\<rparr>"

text \<open>The module \<^verbatim>\<open>geo\<close> of the spec: \<^verbatim>\<open>type Point struct{X, Y int}\<close>,
  \<^verbatim>\<open>func NewPoint(x, y int) Point\<close> and \<^verbatim>\<open>func (p Point) String() string\<close>; with
  them an unexported method \<^verbatim>\<open>norm\<close>, an unexported function \<^verbatim>\<open>origin\<close>, a
  function \<^verbatim>\<open>Dist\<close> and a constant \<^verbatim>\<open>Dim\<close>.\<close>

definition tPoint :: gotype where
  "tPoint = Named ''geo'' ''Point''"

definition sig_NewPoint :: signature where
  "sig_NewPoint = \<lparr>Recv = None, Params = [param ''x'' tInt, param ''y'' tInt],
                   Results = [unnamed tPoint]\<rparr>"

definition sig_String :: signature where
  "sig_String = \<lparr>Recv = Some (param ''p'' tPoint), Params = [], Results = [unnamed tString]\<rparr>"

definition sig_norm :: signature where
  "sig_norm = \<lparr>Recv = Some (param ''p'' tPoint), Params = [], Results = [unnamed tInt]\<rparr>"

definition sig_Dist :: signature where
  "sig_Dist = \<lparr>Recv = None, Params = [param ''a'' tPoint, param ''b'' tPoint],
               Results = [unnamed tInt]\<rparr>"

definition methodSel :: "string \<Rightarrow> string \<Rightarrow> signature \<Rightarrow> selection" where
  "methodSel pn n sig = \<lparr>selObj = TFunc (Some pn) n sig False, selType = sig\<rparr>"

definition geo_ext :: extern where
  "geo_ext = ex_ext\<lparr>NewMethodSet :=
     (\<lambda>t. if t = tPoint
          then [methodSel ''geo'' ''String'' sig_String, methodSel ''geo'' ''norm'' sig_norm]
          else [])\<rparr>"

definition obj_Point :: types_Object where
  "obj_Point = TTypeName (Some ''geo'') ''Point'' tPoint StructU"

definition geo_pkg :: types_Package where
  "geo_pkg =
     \<lparr>pkgName = ''geo'',
      pkgScope = [TConst (Some ''geo'') ''Dim'' tInt,
                  topFunc ''geo'' ''Dist'' sig_Dist,
                  topFunc ''geo'' ''NewPoint'' sig_NewPoint,
                  obj_Point,
                  topFunc ''geo'' ''origin'' sig_NewPoint]\<rparr>"

definition geo_doc :: doc_Package where
  "geo_doc =
     \<lparr>docConsts = [],
      docVars = [],
      docTypes = [\<lparr>typName = ''Point'', typDoc = ''A Point is a point of the plane.'',
                    typFuncs = [\<lparr>fnName = ''NewPoint'', fnDoc = ''NewPoint makes a point.''\<rparr>],
                    typMethods = [\<lparr>fnName = ''String'', fnDoc = ''String renders the point.''\<rparr>]\<rparr>],
      docFuncs = []\<rparr>"

text \<open>The module \<^verbatim>\<open>geo\<close> with one more function, \<^verbatim>\<open>Reset()\<close>.\<close>

definition geo2_pkg :: types_Package where
  "geo2_pkg = geo_pkg\<lparr>pkgScope := pkgScope geo_pkg @ [topFunc ''geo'' ''Reset'' sig_Reset]\<rparr>"

definition funcNames :: "failure + Package \<Rightarrow> string list" where
  "funcNames r = (case r of Inl e \<Rightarrow> [] | Inr p \<Rightarrow> map f_name (p_funcs p))"

section \<open>The result-arity policy\<close>

lemma resultShape_Error_iff:
  "(\<exists>msg. resultShape ext obj res = Inl (Error msg)) \<longleftrightarrow>
     (length res = 2 \<and> \<not> isErrorType ext (vType (res ! 1))) \<or> 3 \<le> length res"
proof -
  consider "length res = 0" | "length res = 1" | "length res = 2" | "3 \<le> length res"
    by arith
  then show ?thesis
    by cases (simp_all add: resultShape_def del: length_0_conv)
qed

lemma resultShape_no_Panic: "resultShape ext obj res \<noteq> Inl (Panic msg)"
  by (auto simp: resultShape_def)

lemma getDoc_no_Error: "getDoc ext d parent obj \<noteq> Inl (Error msg)"
  by (cases obj) (auto simp: Let_def)

lemma newFuncFrom_Inr_shape:
  assumes "newFuncFrom ext d parent obj sig = Inr f"
  shows "resultShape ext obj (Results sig) = Inr (f_err f, f_ret f)"
  using assms
  by (auto simp: newFuncFrom_def split: sum.splits option.splits prod.splits)

lemma newFuncFrom_Error_shape:
  "newFuncFrom ext d parent obj sig = Inl (Error msg) \<longleftrightarrow>
     resultShape ext obj (Results sig) = Inl (Error msg)"
  by (auto simp: newFuncFrom_def getDoc_no_Error split: sum.splits option.splits prod.splits)

text \<open>
  C1. Whenever \<open>newFuncFrom\<close> accepts a declaration, the return type and the
  error flag of the \<open>Func\<close> it builds follow the number of results: none gives
  no return type and no error flag; one result of the error type gives no
  return type and the error flag; one result of another type gives that type
  and no error flag; two results the second of which is the error type give
  the first result's type and the error flag. Nothing else is accepted.
\<close>

theorem newFuncFrom_result_arity:
  assumes "newFuncFrom ext d parent obj sig = Inr f"
  shows "(length (Results sig) = 0 \<longrightarrow> f_ret f = None \<and> \<not> f_err f) \<and>
         (length (Results sig) = 1 \<and> isErrorType ext (vType (Results sig ! 0)) \<longrightarrow>
            f_ret f = None \<and> f_err f) \<and>
         (length (Results sig) = 1 \<and> \<not> isErrorType ext (vType (Results sig ! 0)) \<longrightarrow>
            f_ret f = Some (vType (Results sig ! 0)) \<and> \<not> f_err f) \<and>
         (length (Results sig) = 2 \<and> isErrorType ext (vType (Results sig ! 1)) \<longrightarrow>
            f_ret f = Some (vType (Results sig ! 0)) \<and> f_err f) \<and>
         (length (Results sig) \<le> 1 \<or>
            length (Results sig) = 2 \<and> isErrorType ext (vType (Results sig ! 1)))"
proof -
  have shape: "resultShape ext obj (Results sig) = Inr (f_err f, f_ret f)"
    using assms by (rule newFuncFrom_Inr_shape)
  then show ?thesis
    by (auto simp: resultShape_def split: if_splits)
qed

lemmas ex_defs =
  ex_ext_def errorType_def tInt_def tString_def unnamed_def param_def topFunc_def
  sig_Divide_def sig_Validate_def sig_Sum_def sig_Reset_def sig_Count_def sig_Pair_def
  calc_doc_def no_doc_def

lemmas builder_defs =
  newFuncFrom_def resultShape_def funcId_def funcDocLookup_def orEmpty_def docSig_def
  parseFn_def newSignatureFrom_def newVarsFrom_def newVarFrom_def newline_def

theorem newFuncFrom_result_arity_witness:
  "(\<exists>f. newFuncFrom ex_ext calc_doc '''' (topFunc ''calc'' ''Reset'' sig_Reset) sig_Reset = Inr f
        \<and> f_ret f = None \<and> \<not> f_err f) \<and>
   (\<exists>f. newFuncFrom ex_ext calc_doc '''' (topFunc ''calc'' ''Validate'' sig_Validate) sig_Validate
          = Inr f
        \<and> f_ret f = None \<and> f_err f) \<and>
   (\<exists>f. newFuncFrom ex_ext calc_doc '''' (topFunc ''calc'' ''Count'' sig_Count) sig_Count = Inr f
        \<and> f_ret f = Some tInt \<and> \<not> f_err f) \<and>
   (\<exists>f. newFuncFrom ex_ext calc_doc '''' (topFunc ''calc'' ''Divide'' sig_Divide) sig_Divide = Inr f
        \<and> f_ret f = Some tInt \<and> f_err f)"
proof -
  obtain f0 where
    f0: "newFuncFrom ex_ext calc_doc '''' (topFunc ''calc'' ''Reset'' sig_Reset) sig_Reset = Inr f0"
    by (simp add: builder_defs ex_defs)
  obtain f1 where
    f1: "newFuncFrom ex_ext calc_doc '''' (topFunc ''calc'' ''Validate'' sig_Validate) sig_Validate
           = Inr f1"
    by (simp add: builder_defs ex_defs)
  obtain f2 where
    f2: "newFuncFrom ex_ext calc_doc '''' (topFunc ''calc'' ''Count'' sig_Count) sig_Count = Inr f2"
    by (simp add: builder_defs ex_defs)
  obtain f3 where
    f3: "newFuncFrom ex_ext calc_doc '''' (topFunc ''calc'' ''Divide'' sig_Divide) sig_Divide = Inr f3"
    by (simp add: builder_defs ex_defs)
  have "f_ret f0 = None \<and> \<not> f_err f0"
    using newFuncFrom_result_arity [OF f0] by (simp add: ex_defs)
  moreover have "f_ret f1 = None \<and> f_err f1"
    using newFuncFrom_result_arity [OF f1] by (simp add: ex_defs)
  moreover have "f_ret f2 = Some tInt \<and> \<not> f_err f2"
    using newFuncFrom_result_arity [OF f2] by (simp add: ex_defs)
  moreover have "f_ret f3 = Some tInt \<and> f_err f3"
    using newFuncFrom_result_arity [OF f3] by (simp add: ex_defs)
  ultimately show ?thesis
    using f0 f1 f2 f3 by simp
qed

text \<open>
  C2. \<open>newFuncFrom\<close> returns an error (it neither succeeds nor panics) exactly
  when the declaration has two results the second of which is not the error
  type, or three or more results. In the first case the message is the
  dual-return message followed by the printed declaration, in the second the
  too-many-results message followed by the printed declaration.
\<close>

theorem newFuncFrom_error_iff:
  "((\<exists>msg. newFuncFrom ext d parent obj sig = Inl (Error msg)) \<longleftrightarrow>
      (length (Results sig) = 2 \<and> \<not> isErrorType ext (vType (Results sig ! 1)))
        \<or> 3 \<le> length (Results sig)) \<and>
   (length (Results sig) = 2 \<and> \<not> isErrorType ext (vType (Results sig ! 1)) \<longrightarrow>
      newFuncFrom ext d parent obj sig =
        Inl (Error (''bind: second result value must be of type error: '' @ objString ext obj))) \<and>
   (3 \<le> length (Results sig) \<longrightarrow>
      newFuncFrom ext d parent obj sig =
        Inl (Error (''bind: too many results to return: '' @ objString ext obj)))"
proof (intro conjI impI)
  show "(\<exists>msg. newFuncFrom ext d parent obj sig = Inl (Error msg)) \<longleftrightarrow>
      (length (Results sig) = 2 \<and> \<not> isErrorType ext (vType (Results sig ! 1)))
        \<or> 3 \<le> length (Results sig)"
    by (simp only: newFuncFrom_Error_shape resultShape_Error_iff)
next
  assume "length (Results sig) = 2 \<and> \<not> isErrorType ext (vType (Results sig ! 1))"
  then show "newFuncFrom ext d parent obj sig =
        Inl (Error (''bind: second result value must be of type error: '' @ objString ext obj))"
    by (simp add: newFuncFrom_def resultShape_def)
next
  assume "3 \<le> length (Results sig)"
  then show "newFuncFrom ext d parent obj sig =
        Inl (Error (''bind: too many results to return: '' @ objString ext obj))"
    by (auto simp: newFuncFrom_def resultShape_def)
qed

theorem newFuncFrom_error_iff_witness:
  "newFuncFrom ex_ext calc_doc '''' (topFunc ''calc'' ''Sum'' sig_Sum) sig_Sum =
     Inl (Error ''bind: too many results to return: func Sum'') \<and>
   newFuncFrom ex_ext calc_doc '''' (topFunc ''calc'' ''Pair'' sig_Pair) sig_Pair =
     Inl (Error ''bind: second result value must be of type error: func Pair'') \<and>
   (\<nexists>msg. newFuncFrom ex_ext calc_doc '''' (topFunc ''calc'' ''Divide'' sig_Divide) sig_Divide
             = Inl (Error msg))"
proof -
  have sum: "3 \<le> length (Results sig_Sum)"
    by (simp add: sig_Sum_def)
  have "newFuncFrom ex_ext calc_doc '''' (topFunc ''calc'' ''Sum'' sig_Sum) sig_Sum =
     Inl (Error (''bind: too many results to return: ''
                  @ objString ex_ext (topFunc ''calc'' ''Sum'' sig_Sum)))"
    using newFuncFrom_error_iff [of ex_ext calc_doc "''''" "topFunc ''calc'' ''Sum'' sig_Sum" sig_Sum]
      sum by blast
  then have A: "newFuncFrom ex_ext calc_doc '''' (topFunc ''calc'' ''Sum'' sig_Sum) sig_Sum =
     Inl (Error ''bind: too many results to return: func Sum'')"
    by (simp add: ex_ext_def topFunc_def)
  have pair: "length (Results sig_Pair) = 2
      \<and> \<not> isErrorType ex_ext (vType (Results sig_Pair ! 1))"
    by (simp add: ex_defs)
  have "newFuncFrom ex_ext calc_doc '''' (topFunc ''calc'' ''Pair'' sig_Pair) sig_Pair =
     Inl (Error (''bind: second result value must be of type error: ''
                  @ objString ex_ext (topFunc ''calc'' ''Pair'' sig_Pair)))"
    using newFuncFrom_error_iff [of ex_ext calc_doc "''''" "topFunc ''calc'' ''Pair'' sig_Pair"
        sig_Pair] pair by blast
  then have B: "newFuncFrom ex_ext calc_doc '''' (topFunc ''calc'' ''Pair'' sig_Pair) sig_Pair =
     Inl (Error ''bind: second result value must be of type error: func Pair'')"
    by (simp add: ex_ext_def topFunc_def)
  have divide: "\<not> ((length (Results sig_Divide) = 2
        \<and> \<not> isErrorType ex_ext (vType (Results sig_Divide ! 1)))
      \<or> 3 \<le> length (Results sig_Divide))"
    by (simp add: ex_defs)
  have C: "\<nexists>msg. newFuncFrom ex_ext calc_doc '''' (topFunc ''calc'' ''Divide'' sig_Divide)
             sig_Divide = Inl (Error msg)"
    using newFuncFrom_error_iff [of ex_ext calc_doc "''''"
        "topFunc ''calc'' ''Divide'' sig_Divide" sig_Divide] divide by blast
  show ?thesis
    using A B C by blast
qed

section \<open>The Documentation Resolver\<close>

lemma lookupValues_find:
  "lookupValues cs n = map_option valDoc (find (\<lambda>c. n \<in> set (valNames c)) cs)"
  by (induction cs) simp_all

lemma lookupFuncs_find:
  "lookupFuncs ms n = map_option fnDoc (find (\<lambda>m. fnName m = n) ms)"
  by (induction ms) simp_all

lemma lookupTypeDoc_find:
  "lookupTypeDoc ts n = map_option typDoc (find (\<lambda>t. n = typName t) ts)"
  by (induction ts) simp_all

text \<open>The loop over the types stops at the first type of the name \<open>parent\<close>
  that has a function \<open>n\<close> in the bucket looked at.\<close>

lemma lookupInTypes_find:
  "lookupInTypes typs parent isMeth n =
     (case find (\<lambda>t. typName t = parent \<and>
                    find (\<lambda>m. fnName m = n) (if isMeth then typMethods t else typFuncs t) \<noteq> None)
             typs of
        None \<Rightarrow> None
      | Some t \<Rightarrow>
          map_option fnDoc
            (find (\<lambda>m. fnName m = n) (if isMeth then typMethods t else typFuncs t)))"
proof (induction typs)
  case Nil
  then show ?case by simp
next
  case (Cons ty typs)
  show ?case
  proof (cases "typName ty = parent")
    case False
    with Cons show ?thesis by simp
  next
    case True
    show ?thesis
    proof (cases "find (\<lambda>m. fnName m = n) (if isMeth then typMethods ty else typFuncs ty)")
      case None
      with Cons True show ?thesis by (simp add: lookupFuncs_find)
    next
      case (Some m)
      with True show ?thesis by (simp add: lookupFuncs_find)
    qed
  qed
qed

lemma join_concat:
  "join xs sep = (case xs of [] \<Rightarrow> '''' | x # ys \<Rightarrow> x @ concat (map (\<lambda>y. sep @ y) ys))"
  by (induction xs sep rule: join.induct) simp_all

text \<open>
  C7. For a function or method \<open>n\<close>, \<open>getDoc\<close> returns a string that begins
  with the signature line: the name, the parameters in parentheses and the
  results, each given by its type name and, when it has one, its name, and
  separated by commas. The doc text is looked for by name: for a function
  at package scope with no enclosing type, in the bucket of the free
  functions; otherwise in the first entry of the type bucket that has the
  name of the enclosing type and holds a function of the name \<open>n\<close>, among its
  methods when the object is a method and among its functions (its
  constructors) when it is not. When a doc text is found and is not empty,
  the result is the signature line, a blank line and the doc text; when none
  is found, or the text found is empty, it is the signature line alone. For a
  constant, a variable or a type name the result is the doc text of the first
  entry of its bucket that carries the name, and the empty string when there
  is none; no signature line is added.
\<close>

theorem getDoc_signature_and_doc:
  "getDoc ext d parent (TFunc p n sig hasParent) =
     (let render = (\<lambda>v. if vName v = '''' then pyTypeName ext (vType v)
                         else pyTypeName ext (vType v) @ '' '' @ vName v);
          commas = (\<lambda>xs. case xs of [] \<Rightarrow> ''''
                          | x # ys \<Rightarrow> x @ concat (map (\<lambda>y. '', '' @ y) ys));
          line = n @ ''('' @ commas (map render (Params sig)) @ '') ''
                   @ commas (map render (Results sig));
          bucket = (\<lambda>t. if hasParent then typFuncs t else typMethods t);
          found = (if hasParent \<and> parent = ''''
                   then find (\<lambda>m. fnName m = n) (docFuncs d)
                   else case find (\<lambda>t. typName t = parent \<and>
                                        find (\<lambda>m. fnName m = n) (bucket t) \<noteq> None)
                                 (docTypes d) of
                          None \<Rightarrow> None
                        | Some t \<Rightarrow> find (\<lambda>m. fnName m = n) (bucket t))
      in case found of
           None \<Rightarrow> Inr line
         | Some m \<Rightarrow>
             if fnDoc m = '''' then Inr line
             else Inr (line @ [CHR 0x0A, CHR 0x0A] @ fnDoc m)) \<and>
   getDoc ext d parent (TConst p n t) =
     Inr (case find (\<lambda>c. n \<in> set (valNames c)) (docConsts d) of
            Some c \<Rightarrow> valDoc c | None \<Rightarrow> '''') \<and>
   getDoc ext d parent (TVar p n t) =
     Inr (case find (\<lambda>c. n \<in> set (valNames c)) (docVars d) of
            Some c \<Rightarrow> valDoc c | None \<Rightarrow> '''') \<and>
   getDoc ext d parent (TTypeName p n t u) =
     Inr (case find (\<lambda>t. n = typName t) (docTypes d) of
            Some t \<Rightarrow> typDoc t | None \<Rightarrow> '''')"
proof (intro conjI)
  have sig: "docSig ext n sig =
      n @ ''('' @
        (case map (\<lambda>v. if vName v = '''' then pyTypeName ext (vType v)
                         else pyTypeName ext (vType v) @ '' '' @ vName v) (Params sig) of
           [] \<Rightarrow> '''' | x # ys \<Rightarrow> x @ concat (map (\<lambda>y. '', '' @ y) ys))
        @ '') '' @
        (case map (\<lambda>v. if vName v = '''' then pyTypeName ext (vType v)
                         else pyTypeName ext (vType v) @ '' '' @ vName v) (Results sig) of
           [] \<Rightarrow> '''' | x # ys \<Rightarrow> x @ concat (map (\<lambda>y. '', '' @ y) ys))"
    (is "_ = ?line")
  proof -
    have "parseFn ext = map (\<lambda>v. if vName v = '''' then pyTypeName ext (vType v)
                         else pyTypeName ext (vType v) @ '' '' @ vName v)"
      by (rule ext) (simp add: parseFn_def if_distrib cong: if_cong)
    then show ?thesis
      by (simp only: docSig_def join_concat)
  qed
  let ?named = "\<lambda>ms. find (\<lambda>m. fnName m = n) ms"
  let ?bucket = "\<lambda>t. if hasParent then typFuncs t else typMethods t"
  let ?found = "if hasParent \<and> parent = ''''
                   then ?named (docFuncs d)
                   else case find (\<lambda>t. typName t = parent \<and> ?named (?bucket t) \<noteq> None)
                                 (docTypes d) of
                          None \<Rightarrow> None
                        | Some t \<Rightarrow> ?named (?bucket t)"
  have look: "funcDocLookup d parent n hasParent = map_option fnDoc ?found"
  proof (cases hasParent)
    case False
    then show ?thesis
      by (simp add: funcDocLookup_def lookupInTypes_find split: option.split)
  next
    case True
    show ?thesis
    proof (cases "parent = ''''")
      case True
      with \<open>hasParent\<close> show ?thesis
        by (simp add: funcDocLookup_def lookupFuncs_find)
    next
      case False
      with \<open>hasParent\<close> show ?thesis
        by (simp add: funcDocLookup_def lookupInTypes_find split: option.split)
    qed
  qed
  have "getDoc ext d parent (TFunc p n sig hasParent) =
      (case ?found of
           None \<Rightarrow> Inr ?line
         | Some m \<Rightarrow>
             if fnDoc m = '''' then Inr ?line
             else Inr (?line @ [CHR 0x0A, CHR 0x0A] @ fnDoc m))"
    unfolding getDoc.simps look sig [symmetric]
    by (cases ?found) (simp_all add: orEmpty_def newline_def)
  then show "getDoc ext d parent (TFunc p n sig hasParent) =
     (let render = (\<lambda>v. if vName v = '''' then pyTypeName ext (vType v)
                         else pyTypeName ext (vType v) @ '' '' @ vName v);
          commas = (\<lambda>xs. case xs of [] \<Rightarrow> ''''
                          | x # ys \<Rightarrow> x @ concat (map (\<lambda>y. '', '' @ y) ys));
          line = n @ ''('' @ commas (map render (Params sig)) @ '') ''
                   @ commas (map render (Results sig));
          bucket = (\<lambda>t. if hasParent then typFuncs t else typMethods t);
          found = (if hasParent \<and> parent = ''''
                   then find (\<lambda>m. fnName m = n) (docFuncs d)
                   else case find (\<lambda>t. typName t = parent \<and>
                                        find (\<lambda>m. fnName m = n) (bucket t) \<noteq> None)
                                 (docTypes d) of
                          None \<Rightarrow> None
                        | Some t \<Rightarrow> find (\<lambda>m. fnName m = n) (bucket t))
      in case found of
           None \<Rightarrow> Inr line
         | Some m \<Rightarrow>
             if fnDoc m = '''' then Inr line
             else Inr (line @ [CHR 0x0A, CHR 0x0A] @ fnDoc m))"
    by (simp only: Let_def)
next
  show "getDoc ext d parent (TConst p n t) =
     Inr (case find (\<lambda>c. n \<in> set (valNames c)) (docConsts d) of
            Some c \<Rightarrow> valDoc c | None \<Rightarrow> '''')"
    by (simp add: orEmpty_def lookupValues_find split: option.split)
next
  show "getDoc ext d parent (TVar p n t) =
     Inr (case find (\<lambda>c. n \<in> set (valNames c)) (docVars d) of
            Some c \<Rightarrow> valDoc c | None \<Rightarrow> '''')"
    by (simp add: orEmpty_def lookupValues_find split: option.split)
next
  show "getDoc ext d parent (TTypeName p n t u) =
     Inr (case find (\<lambda>t. n = typName t) (docTypes d) of
            Some t \<Rightarrow> typDoc t | None \<Rightarrow> '''')"
    by (simp add: orEmpty_def lookupTypeDoc_find split: option.split)
qed

theorem getDoc_signature_and_doc_witness:
  "getDoc ex_ext calc_doc '''' (topFunc ''calc'' ''Divide'' sig_Divide) =
     Inr (''Divide(int a, int b) int, error'' @ [CHR 0x0A, CHR 0x0A]
            @ ''Divide divides a by b.'') \<and>
   getDoc ex_ext calc_doc '''' (topFunc ''calc'' ''Count'' sig_Count) = Inr ''Count() int'' \<and>
   getDoc ex_ext calc_doc '''' (topFunc ''calc'' ''Reset'' sig_Reset) = Inr ''Reset() '' \<and>
   getDoc ex_ext geo_doc ''Point'' (TFunc (Some ''geo'') ''String'' sig_String False) =
     Inr (''String() string'' @ [CHR 0x0A, CHR 0x0A] @ ''String renders the point.'') \<and>
   getDoc ex_ext geo_doc ''Point'' (topFunc ''geo'' ''NewPoint'' sig_NewPoint) =
     Inr (''NewPoint(int x, int y) Point'' @ [CHR 0x0A, CHR 0x0A]
            @ ''NewPoint makes a point.'') \<and>
   getDoc ex_ext geo_doc '''' (topFunc ''geo'' ''NewPoint'' sig_NewPoint) =
     Inr ''NewPoint(int x, int y) Point'' \<and>
   getDoc ex_ext geo_doc ''Point'' (topFunc ''geo'' ''String'' sig_String) =
     Inr ''String() string'' \<and>
   getDoc ex_ext calc_doc '''' (TConst (Some ''calc'') ''Pi'' (Basic ''float64'')) =
     Inr ''Mathematical constants.'' \<and>
   getDoc ex_ext calc_doc '''' (TVar (Some ''calc'') ''Pi'' (Basic ''float64'')) = Inr '''' \<and>
   getDoc ex_ext geo_doc '''' obj_Point = Inr ''A Point is a point of the plane.''"
proof -
  note defs = ex_defs geo_doc_def sig_String_def sig_NewPoint_def tPoint_def obj_Point_def
  note eq = getDoc_signature_and_doc [THEN conjunct1]
  have A: "getDoc ex_ext calc_doc '''' (topFunc ''calc'' ''Divide'' sig_Divide) =
     Inr (''Divide(int a, int b) int, error'' @ [CHR 0x0A, CHR 0x0A]
            @ ''Divide divides a by b.'')"
    unfolding topFunc_def eq by (simp add: defs)
  have B: "getDoc ex_ext calc_doc '''' (topFunc ''calc'' ''Count'' sig_Count) = Inr ''Count() int''"
    unfolding topFunc_def eq by (simp add: defs)
  have C: "getDoc ex_ext calc_doc '''' (topFunc ''calc'' ''Reset'' sig_Reset) = Inr ''Reset() ''"
    unfolding topFunc_def eq by (simp add: defs)
  have D: "getDoc ex_ext geo_doc ''Point'' (TFunc (Some ''geo'') ''String'' sig_String False) =
     Inr (''String() string'' @ [CHR 0x0A, CHR 0x0A] @ ''String renders the point.'')"
    unfolding eq by (simp add: defs)
  have E: "getDoc ex_ext geo_doc ''Point'' (topFunc ''geo'' ''NewPoint'' sig_NewPoint) =
     Inr (''NewPoint(int x, int y) Point'' @ [CHR 0x0A, CHR 0x0A]
            @ ''NewPoint makes a point.'')"
    unfolding topFunc_def eq by (simp add: defs)
  have F: "getDoc ex_ext geo_doc '''' (topFunc ''geo'' ''NewPoint'' sig_NewPoint) =
     Inr ''NewPoint(int x, int y) Point''"
    unfolding topFunc_def eq by (simp add: defs)
  have G: "getDoc ex_ext geo_doc ''Point'' (topFunc ''geo'' ''String'' sig_String) =
     Inr ''String() string''"
    unfolding topFunc_def eq by (simp add: defs)
  have H: "getDoc ex_ext calc_doc '''' (TConst (Some ''calc'') ''Pi'' (Basic ''float64'')) =
     Inr ''Mathematical constants.''"
    unfolding getDoc_signature_and_doc [THEN conjunct2, THEN conjunct1]
    by (simp add: defs)
  have I: "getDoc ex_ext calc_doc '''' (TVar (Some ''calc'') ''Pi'' (Basic ''float64'')) = Inr ''''"
    unfolding getDoc_signature_and_doc [THEN conjunct2, THEN conjunct2, THEN conjunct1]
    by (simp add: defs)
  have J: "getDoc ex_ext geo_doc '''' obj_Point = Inr ''A Point is a point of the plane.''"
    unfolding obj_Point_def getDoc_signature_and_doc [THEN conjunct2, THEN conjunct2, THEN conjunct2]
    by (simp add: defs)
  show ?thesis
    using A B C D E F G H I J by simp
qed

section \<open>The loops in closed form\<close>

subsection \<open>The method loop\<close>

lemma protsAfter_Cons:
  "protsAfter ext (m # ms) pr =
     (if Exported ext (selObj m) \<and> isStringer ext (selObj m)
      then protsAfter ext ms (pr OR ProtoStringer) else protsAfter ext ms pr)"
  by (auto simp: protsAfter_def or.assoc)

lemma addMeths_closed:
  "addMeths ext d sname ms s = Inr s' \<Longrightarrow>
     s' = s\<lparr>s_meths := s_meths s @ methodModels ext d sname ms,
            s_prots := protsAfter ext ms (s_prots s)\<rparr>"
proof (induction ms arbitrary: s)
  case Nil
  then show ?case by (simp add: methodModels_def protsAfter_def)
next
  case (Cons m ms)
  show ?case
  proof (cases "Exported ext (selObj m)")
    case False
    with Cons.prems have "addMeths ext d sname ms s = Inr s'" by simp
    from Cons.IH [OF this] False show ?thesis
      by (simp add: methodModels_def protsAfter_Cons)
  next
    case True
    with Cons.prems obtain f where
      f: "newFuncFrom ext d sname (selObj m) (selType m) = Inr f"
      by (auto split: sum.splits)
    let ?s1 = "s\<lparr>s_meths := s_meths s @ [f]\<rparr>"
    let ?s2 = "if isStringer ext (selObj m)
               then ?s1\<lparr>s_prots := s_prots ?s1 OR ProtoStringer\<rparr> else ?s1"
    from Cons.prems True f have "addMeths ext d sname ms ?s2 = Inr s'"
      by (simp add: Let_def)
    from Cons.IH [OF this] True f show ?thesis
      by (simp add: methodModels_def protsAfter_Cons)
  qed
qed

lemma addMeths_success:
  "addMeths ext d sname ms s = Inr s' \<Longrightarrow> m \<in> set ms \<Longrightarrow> Exported ext (selObj m) \<Longrightarrow>
     \<exists>f. newFuncFrom ext d sname (selObj m) (selType m) = Inr f"
proof (induction ms arbitrary: s)
  case Nil
  then show ?case by simp
next
  case (Cons a ms)
  show ?case
  proof (cases "Exported ext (selObj a)")
    case False
    with Cons show ?thesis by auto
  next
    case True
    with Cons.prems(1) obtain f where
      f: "newFuncFrom ext d sname (selObj a) (selType a) = Inr f"
      by (auto split: sum.splits)
    show ?thesis
    proof (cases "m = a")
      case True
      with f show ?thesis by blast
    next
      case False
      with Cons.prems(2) have "m \<in> set ms" by simp
      moreover from Cons.prems(1) True f obtain s1 where "addMeths ext d sname ms s1 = Inr s'"
        by (simp add: Let_def)
      ultimately show ?thesis
        using Cons.IH Cons.prems(3) by blast
    qed
  qed
qed

lemma methodModels_all2:
  assumes "\<And>m. m \<in> set ms \<Longrightarrow> Exported ext (selObj m) \<Longrightarrow>
             \<exists>f. newFuncFrom ext d sname (selObj m) (selType m) = Inr f"
  shows "list_all2 (\<lambda>m f. newFuncFrom ext d sname (selObj m) (selType m) = Inr f)
           (filter (\<lambda>m. Exported ext (selObj m)) ms) (methodModels ext d sname ms)"
  using assms
proof (induction ms)
  case Nil
  then show ?case by (simp add: methodModels_def)
next
  case (Cons a ms)
  then have IH: "list_all2 (\<lambda>m f. newFuncFrom ext d sname (selObj m) (selType m) = Inr f)
           (filter (\<lambda>m. Exported ext (selObj m)) ms) (methodModels ext d sname ms)"
    by simp
  show ?case
  proof (cases "Exported ext (selObj a)")
    case False
    with IH show ?thesis by (simp add: methodModels_def)
  next
    case True
    with Cons.prems [of a] obtain f where
      "newFuncFrom ext d sname (selObj a) (selType a) = Inr f" by auto
    with IH True show ?thesis by (simp add: methodModels_def)
  qed
qed

subsection \<open>The constructor loop\<close>

lemma claimed_Nil [simp]: "claimed funcs s [] = []"
  by (simp add: claimed_def List.map_filter_simps)

lemma claimed_Cons:
  "claimed funcs s (k # ks) =
     (case map_of funcs k of
        None \<Rightarrow> claimed funcs s ks
      | Some f \<Rightarrow> if matches s f then (k, f) # claimed funcs s ks else claimed funcs s ks)"
  by (simp add: claimed_def List.map_filter_simps split: option.splits)

lemma claimed_fst: "fst ` set (claimed funcs s ks) \<subseteq> set ks"
  by (induction ks) (auto simp: claimed_Cons split: option.splits if_splits)

lemma claimed_delete:
  "k \<notin> set ks \<Longrightarrow> claimed (AList.delete k funcs) s ks = claimed funcs s ks"
  by (induction ks) (auto simp: claimed_Cons delete_conv' split: option.splits)

lemma matches_ctors_upd [simp]: "matches (s\<lparr>s_ctors := cs\<rparr>) f = matches s f"
  by (simp add: matches_def s_GoType_def)

lemma claimed_ctors_upd [simp]: "claimed funcs (s\<lparr>s_ctors := cs\<rparr>) ks = claimed funcs s ks"
  by (induction ks) (simp_all add: claimed_Cons split: option.splits)

lemma filter_delete:
  "filter P (AList.delete k xs) = filter (\<lambda>kf. fst kf \<noteq> k \<and> P kf) xs"
  by (induction xs) (auto simp: AList.delete_eq)

lemma claimCtors_closed:
  "claimCtors ext d scope sname names (funcs, s) = Inr (funcs', s') \<Longrightarrow> distinct names \<Longrightarrow>
     funcs' = filter (\<lambda>kf. fst kf \<notin> fst ` set (claimed funcs s names)) funcs \<and>
     s' = s\<lparr>s_ctors := s_ctors s @ map (ctorOf ext d scope sname) (claimed funcs s names)\<rparr>"
proof (induction names arbitrary: funcs s)
  case Nil
  then show ?case by simp
next
  case (Cons name names)
  from Cons.prems(2) have dist: "distinct names" and notin: "name \<notin> set names" by simp_all
  show ?case
  proof (cases "map_of funcs name")
    case None
    with Cons.prems(1) have "claimCtors ext d scope sname names (funcs, s) = Inr (funcs', s')"
      by simp
    from Cons.IH [OF this dist] None show ?thesis
      by (simp add: claimed_Cons)
  next
    case (Some fct)
    show ?thesis
    proof (cases "matches s fct")
      case False
      with Cons.prems(1) Some
      have "claimCtors ext d scope sname names (funcs, s) = Inr (funcs', s')"
        by (auto simp: matches_def split: if_splits)
      from Cons.IH [OF this dist] Some False show ?thesis
        by (simp add: claimed_Cons)
    next
      case True
      then have r: "f_Return fct \<noteq> None" "f_Return fct = s_GoType s"
        unfolding matches_def by blast+
      from Cons.prems(1) Some r obtain obj doc where
        obj: "scopeLookup scope name = Some obj" and
        doc: "getDoc ext d sname obj = Inr doc" and
        rest: "claimCtors ext d scope sname names
                 (AList.delete name funcs,
                  s\<lparr>s_ctors := s_ctors s @ [fct\<lparr>f_doc := doc, f_ctor := True\<rparr>]\<rparr>)
               = Inr (funcs', s')"
        by (auto split: option.splits sum.splits)
      have c: "ctorOf ext d scope sname (name, fct) = fct\<lparr>f_doc := doc, f_ctor := True\<rparr>"
        by (simp add: ctorOf_def ctorDoc_def obj doc)
      have notc: "name \<notin> fst ` set (claimed funcs s names)"
        using claimed_fst [of funcs s names] notin by blast
      have f: "filter (\<lambda>kf. fst kf \<notin> fst ` set (claimed funcs s names)) (AList.delete name funcs)
            = filter (\<lambda>kf. fst kf \<notin> fst ` set ((name, fct) # claimed funcs s names)) funcs"
        by (simp add: filter_delete)
      from Cons.IH [OF rest dist] Some True c f show ?thesis
        by (simp add: claimed_Cons claimed_delete [OF notin])
    qed
  qed
qed

subsection \<open>The constructor loop under a schedule\<close>

lemma map_of_distinct_iff:
  "distinct (map fst xs) \<Longrightarrow> map_of xs k = Some v \<longleftrightarrow> (k, v) \<in> set xs"
  by (auto dest: map_of_SomeD)

lemma claimed_mem:
  assumes "distinct (map fst funcs)"
  shows "(k, f) \<in> set (claimed funcs s names) \<longleftrightarrow>
           k \<in> set names \<and> (k, f) \<in> set funcs \<and> matches s f"
proof (induction names)
  case Nil
  then show ?case by simp
next
  case (Cons a ks)
  show ?case
  proof (cases "map_of funcs a")
    case None
    then have "(a, f) \<notin> set funcs"
      using map_of_distinct_iff [OF assms, of a f] by simp
    with Cons None show ?thesis
      by (auto simp: claimed_Cons)
  next
    case (Some g)
    then have in_f: "(a, g) \<in> set funcs"
      by (simp add: map_of_distinct_iff [OF assms])
    have uniq: "(a, f) \<in> set funcs \<Longrightarrow> f = g"
      using Some map_of_distinct_iff [OF assms, of a f] by simp
    show ?thesis
    proof (cases "matches s g")
      case True
      with Cons Some in_f uniq show ?thesis
        by (simp add: claimed_Cons) blast
    next
      case False
      with Cons Some in_f uniq show ?thesis
        by (simp add: claimed_Cons) blast
    qed
  qed
qed

lemma claimed_keys_filter:
  "map fst (claimed funcs s names) =
     filter (\<lambda>k. \<exists>f. map_of funcs k = Some f \<and> matches s f) names"
  by (induction names) (auto simp: claimed_Cons split: option.splits)

lemma claimed_distinct: "distinct names \<Longrightarrow> distinct (claimed funcs s names)"
proof -
  assume "distinct names"
  then have "distinct (map fst (claimed funcs s names))"
    by (simp add: claimed_keys_filter)
  then show ?thesis
    by (rule distinct_map [THEN iffD1, THEN conjunct1])
qed

lemma claimed_mset:
  assumes "distinct (map fst funcs)" and "mset names = mset (map fst funcs)"
  shows "mset (claimed funcs s names) = filter_mset (\<lambda>kf. matches s (snd kf)) (mset funcs)"
proof -
  have dn: "distinct names"
    using assms by (metis mset_eq_imp_distinct_iff)
  have sn: "set names = fst ` set funcs"
    using assms(2) by (metis mset_eq_setD set_map)
  have "\<And>kf. kf \<in> set (claimed funcs s names) \<longleftrightarrow>
          kf \<in> set (filter (\<lambda>kf. matches s (snd kf)) funcs)"
  proof -
    fix kf :: "string \<times> Func"
    obtain k f where kf: "kf = (k, f)" by (cases kf)
    show "kf \<in> set (claimed funcs s names) \<longleftrightarrow>
          kf \<in> set (filter (\<lambda>kf. matches s (snd kf)) funcs)"
      unfolding kf claimed_mem [OF assms(1)] using sn by force
  qed
  then have "set (claimed funcs s names) = set (filter (\<lambda>kf. matches s (snd kf)) funcs)"
    by blast
  moreover have "distinct (filter (\<lambda>kf. matches s (snd kf)) funcs)"
    using assms(1) by (simp add: distinct_map)
  ultimately have "mset (claimed funcs s names) = mset (filter (\<lambda>kf. matches s (snd kf)) funcs)"
    using claimed_distinct [OF dn, of funcs s] set_eq_iff_mset_eq_distinct by blast
  then show ?thesis by simp
qed

lemma claimed_unclaimed:
  assumes "distinct (map fst funcs)" and "mset names = mset (map fst funcs)"
  shows "filter (\<lambda>kf. fst kf \<notin> fst ` set (claimed funcs s names)) funcs = unclaimed s funcs"
proof -
  have sn: "set names = fst ` set funcs"
    using assms(2) by (metis mset_eq_setD set_map)
  have "\<And>kf. kf \<in> set funcs \<Longrightarrow>
          fst kf \<notin> fst ` set (claimed funcs s names) \<longleftrightarrow> \<not> matches s (snd kf)"
  proof -
    fix kf assume kf: "kf \<in> set funcs"
    have u: "\<And>v. (fst kf, v) \<in> set funcs \<Longrightarrow> v = snd kf"
      using kf assms(1) by (metis eq_key_imp_eq_value prod.collapse)
    show "fst kf \<notin> fst ` set (claimed funcs s names) \<longleftrightarrow> \<not> matches s (snd kf)"
    proof
      assume "fst kf \<notin> fst ` set (claimed funcs s names)"
      then have "(fst kf, snd kf) \<notin> set (claimed funcs s names)"
        by (metis fst_conv image_eqI)
      then show "\<not> matches s (snd kf)"
        unfolding claimed_mem [OF assms(1)] using kf sn by force
    next
      assume nm: "\<not> matches s (snd kf)"
      show "fst kf \<notin> fst ` set (claimed funcs s names)"
      proof
        assume "fst kf \<in> fst ` set (claimed funcs s names)"
        then obtain v where v: "(fst kf, v) \<in> set (claimed funcs s names)"
          by force
        then have "(fst kf, v) \<in> set funcs" and "matches s v"
          unfolding claimed_mem [OF assms(1)] by simp_all
        with u nm show False by blast
      qed
    qed
  qed
  then show ?thesis
    unfolding unclaimed_def by (rule filter_cong [OF refl])
qed

lemma unclaimed_distinct: "distinct (map fst funcs) \<Longrightarrow> distinct (map fst (unclaimed s funcs))"
  by (simp add: unclaimed_def distinct_map_filter)

subsection \<open>The loop over structs\<close>

lemma methodSetOf_ctors_upd [simp]: "methodSetOf ext (s\<lparr>s_ctors := cs\<rparr>) = methodSetOf ext s"
  by (simp add: methodSetOf_def s_GoType_def)

lemma objs_add_entry:
  "(m(k \<mapsto> v)) ++ map_of (rev xs) = m ++ map_of (rev ((k, v) # xs))"
proof -
  have "m(k \<mapsto> v) = m ++ [k \<mapsto> v]" by simp
  then show ?thesis
    by (simp only: rev.simps map_of_append map_add_assoc map_of.simps fst_conv snd_conv)
qed

lemma addStruct_more:
  "(addStruct p s)\<lparr>p_structs := p_structs (addStruct p s) @ R,
                  p_objs := p_objs (addStruct p s) ++ map_of (rev (map structObj R))\<rparr> =
   p\<lparr>p_structs := p_structs p @ s # R,
     p_objs := p_objs p ++ map_of (rev (map structObj (s # R)))\<rparr>"
proof -
  have "(p_objs p)(s_GoName s \<mapsto> OStruct s) ++ map_of (rev (map structObj R)) =
        p_objs p ++ map_of (rev (map structObj (s # R)))"
    by (simp only: list.map(2) structObj_def [of s] objs_add_entry)
  then show ?thesis
    by (simp add: addStruct_def)
qed

lemma addFunc_more:
  "(addFunc p f)\<lparr>p_funcs := p_funcs (addFunc p f) @ R,
                p_objs := p_objs (addFunc p f) ++ map_of (rev (map funcObj R))\<rparr> =
   p\<lparr>p_funcs := p_funcs p @ f # R,
     p_objs := p_objs p ++ map_of (rev (map funcObj (f # R)))\<rparr>"
proof -
  have "(p_objs p)(f_GoName f \<mapsto> OFunc f) ++ map_of (rev (map funcObj R)) =
        p_objs p ++ map_of (rev (map funcObj (f # R)))"
    by (simp only: list.map(2) funcObj_def [of f] objs_add_entry)
  then show ?thesis
    by (simp add: addFunc_def)
qed

lemma reclassify_closed:
  assumes "valid_schedule sch"
  shows "reclassify ext sch structs snames (p, funcs) = Inr (p', funcs') \<Longrightarrow>
     distinct (map fst funcs) \<Longrightarrow>
     funcs' = remaining structs snames funcs \<and>
     p' = p\<lparr>p_structs := p_structs p @
               structModels ext sch (p_doc p) (pkgScope (p_pkg p)) structs snames funcs,
            p_objs := p_objs p ++
               map_of (rev (map structObj
                 (structModels ext sch (p_doc p) (pkgScope (p_pkg p)) structs snames funcs)))\<rparr>"
proof (induction snames arbitrary: p funcs)
  case Nil
  then show ?case by simp
next
  case (Cons sname snames)
  show ?case
  proof (cases "map_of structs sname")
    case None
    with Cons.prems(1) have "reclassify ext sch structs snames (p, funcs) = Inr (p', funcs')"
      by simp
    from Cons.IH [OF this Cons.prems(2)] None show ?thesis by simp
  next
    case (Some s)
    let ?names = "funcsOrder sch sname (map fst funcs)"
    have perm: "mset ?names = mset (map fst funcs)"
      using assms by (simp add: valid_schedule_def)
    then have dn: "distinct ?names"
      using Cons.prems(2) by (metis mset_eq_imp_distinct_iff)
    from Cons.prems(1) Some obtain funcs1 s1 s2 where
      c: "claimCtors ext (p_doc p) (pkgScope (p_pkg p)) sname ?names (funcs, s) = Inr (funcs1, s1)"
      and m: "addMeths ext (p_doc p) sname (methodSetOf ext s1) s1 = Inr s2"
      and r: "reclassify ext sch structs snames (addStruct p s2, funcs1) = Inr (p', funcs')"
      by (auto split: sum.splits)
    from claimCtors_closed [OF c dn]
    have funcs1: "funcs1 = unclaimed s funcs"
      and s1: "s1 = s\<lparr>s_ctors := s_ctors s @
                  map (ctorOf ext (p_doc p) (pkgScope (p_pkg p)) sname) (claimed funcs s ?names)\<rparr>"
      by (simp_all add: claimed_unclaimed [OF Cons.prems(2) perm])
    from addMeths_closed [OF m] s1
    have s2: "s2 = structModel ext sch (p_doc p) (pkgScope (p_pkg p)) funcs sname s"
      by (simp add: structModel_def)
    have d1: "distinct (map fst funcs1)"
      using Cons.prems(2) funcs1 by (simp add: unclaimed_distinct)
    have sm: "structModels ext sch (p_doc p) (pkgScope (p_pkg p)) structs (sname # snames) funcs
        = s2 # structModels ext sch (p_doc p) (pkgScope (p_pkg p)) structs snames funcs1"
      using Some funcs1 s2 by simp
    have frame: "p_doc (addStruct p s2) = p_doc p" "p_pkg (addStruct p s2) = p_pkg p"
      by (simp_all add: addStruct_def)
    from Cons.IH [OF r d1]
    have "funcs' = remaining structs snames funcs1" and
      "p' = (addStruct p s2)\<lparr>p_structs := p_structs (addStruct p s2) @
               structModels ext sch (p_doc p) (pkgScope (p_pkg p)) structs snames funcs1,
            p_objs := p_objs (addStruct p s2) ++
               map_of (rev (map structObj
                 (structModels ext sch (p_doc p) (pkgScope (p_pkg p)) structs snames funcs1)))\<rparr>"
      by (simp_all only: frame)
    then show ?thesis
      using Some funcs1 by (simp only: addStruct_more sm remaining.simps option.case simp_thms)
  qed
qed

subsection \<open>The loop over the remaining functions\<close>

lemma addFuncs_closed:
  "addFuncs funcs names p =
     p\<lparr>p_funcs := p_funcs p @ funcModels funcs names,
       p_objs := p_objs p ++ map_of (rev (map funcObj (funcModels funcs names)))\<rparr>"
proof (induction names arbitrary: p)
  case Nil
  then show ?case by (simp add: funcModels_def List.map_filter_simps)
next
  case (Cons name names)
  show ?case
  proof (cases "map_of funcs name")
    case None
    with Cons show ?thesis by (simp add: funcModels_def List.map_filter_simps)
  next
    case (Some f)
    have fm: "funcModels funcs (name # names) = f # funcModels funcs names"
      using Some by (simp add: funcModels_def List.map_filter_simps)
    have "addFuncs funcs (name # names) p = addFuncs funcs names (addFunc p f)"
      using Some by simp
    also have "\<dots> = p\<lparr>p_funcs := p_funcs p @ f # funcModels funcs names,
       p_objs := p_objs p ++ map_of (rev (map funcObj (f # funcModels funcs names)))\<rparr>"
      by (simp only: Cons addFunc_more)
    finally show ?thesis
      by (simp only: fm)
  qed
qed

section \<open>The walk over the scope\<close>

lemma scopeLookup_name: "scopeLookup scope name = Some obj \<Longrightarrow> objName obj = name"
  by (auto simp: scopeLookup_def find_Some_iff)

lemma scopeLookup_mem: "scopeLookup scope name = Some obj \<Longrightarrow> obj \<in> set scope"
  by (auto simp: scopeLookup_def find_Some_iff)

lemma scopeLookup_distinct:
  "distinct (scopeNames scope) \<Longrightarrow> obj \<in> set scope \<Longrightarrow>
     scopeLookup scope (objName obj) = Some obj"
  unfolding scopeNames_def scopeLookup_def
  by (induction scope) auto

lemma classify_Inr_cases:
  assumes "classify ext name (p, F, S) = Inr w'"
  obtains
    (skip) obj where "scopeLookup (pkgScope (p_pkg p)) name = Some obj"
      and "\<not> Exported ext obj" and "w' = (p, F, S)"
  | (const) pk t c where "scopeLookup (pkgScope (p_pkg p)) name = Some (TConst pk name t)"
      and "Exported ext (TConst pk name t)"
      and "newConst ext (p_doc p) pk name t = Inr c"
      and "w' = (addConst (p\<lparr>p_syms := addSymbol (p_syms p) (TConst pk name t)\<rparr>) c, F, S)"
  | (var) pk t where "scopeLookup (pkgScope (p_pkg p)) name = Some (TVar pk name t)"
      and "Exported ext (TVar pk name t)"
      and "w' = (addVar (p\<lparr>p_syms := addSymbol (p_syms p) (TVar pk name t)\<rparr>)
                   (newVarFrom (p_doc p) \<lparr>vName = name, vType = t\<rparr>), F, S)"
  | (func) pk sig hp f where
      "scopeLookup (pkgScope (p_pkg p)) name = Some (TFunc pk name sig hp)"
      and "Exported ext (TFunc pk name sig hp)"
      and "newFuncFrom ext (p_doc p) '''' (TFunc pk name sig hp) sig = Inr f"
      and "w' = (p\<lparr>p_syms := addSymbol (p_syms p) (TFunc pk name sig hp)\<rparr>,
                 AList.update name f F, S)"
  | (struct) pk pp nn s where
      "scopeLookup (pkgScope (p_pkg p)) name = Some (TTypeName pk name (Named pp nn) StructU)"
      and "Exported ext (TTypeName pk name (Named pp nn) StructU)"
      and "newStruct ext (p_doc p) (TTypeName pk name (Named pp nn) StructU) = Inr s"
      and "w' = (p\<lparr>p_syms := addSymbol (p_syms p) (TTypeName pk name (Named pp nn) StructU)\<rparr>,
                 F, AList.update name s S)"
proof -
  from assms obtain obj where obj: "scopeLookup (pkgScope (p_pkg p)) name = Some obj"
    by (auto simp: classify_def split: option.splits)
  then have n: "objName obj = name" by (rule scopeLookup_name)
  show thesis
  proof (cases "Exported ext obj")
    case False
    with assms obj have "w' = (p, F, S)" by (simp add: classify_def)
    with obj False show thesis by (rule skip)
  next
    case True
    show thesis
    proof (cases obj)
      case (TConst pk n' t)
      with n have o: "obj = TConst pk name t" by simp
      from assms obj True o obtain c where "newConst ext (p_doc p) pk name t = Inr c"
        and "w' = (addConst (p\<lparr>p_syms := addSymbol (p_syms p) (TConst pk name t)\<rparr>) c, F, S)"
        by (auto simp: classify_def Let_def split: sum.splits)
      with obj True o show thesis by (auto intro: const)
    next
      case (TVar pk n' t)
      with n have o: "obj = TVar pk name t" by simp
      from assms obj True o
      have "w' = (addVar (p\<lparr>p_syms := addSymbol (p_syms p) (TVar pk name t)\<rparr>)
                   (newVarFrom (p_doc p) \<lparr>vName = name, vType = t\<rparr>), F, S)"
        by (auto simp: classify_def Let_def)
      with obj True o show thesis by (auto intro: var)
    next
      case (TFunc pk n' sig hp)
      with n have o: "obj = TFunc pk name sig hp" by simp
      from assms obj True o obtain f where
        "newFuncFrom ext (p_doc p) '''' (TFunc pk name sig hp) sig = Inr f"
        and "w' = (p\<lparr>p_syms := addSymbol (p_syms p) (TFunc pk name sig hp)\<rparr>,
                 AList.update name f F, S)"
        by (auto simp: classify_def Let_def split: sum.splits)
      with obj True o show thesis by (auto intro: func)
    next
      case (TTypeName pk n' t u)
      with n have o: "obj = TTypeName pk name t u" by simp
      from assms obj True o obtain pp nn where t: "t = Named pp nn"
        by (cases t) (auto simp: classify_def Let_def)
      from assms obj True o t have u: "u = StructU"
        by (cases u) (auto simp: classify_def Let_def)
      from assms obj True o t u obtain s where
        "newStruct ext (p_doc p) (TTypeName pk name (Named pp nn) StructU) = Inr s"
        and "w' = (p\<lparr>p_syms := addSymbol (p_syms p) (TTypeName pk name (Named pp nn) StructU)\<rparr>,
                 F, AList.update name s S)"
        by (auto simp: classify_def Let_def split: sum.splits)
      with obj True o t u show thesis by (auto intro: struct)
    next
      case (TOther pk n' k)
      with assms obj True show thesis
        by (auto simp: classify_def Let_def)
    qed
  qed
qed

lemma classifyAll_invariant:
  assumes "classifyAll ext names w = Inr w'" and "I w"
    and step: "\<And>name w1 w2. I w1 \<Longrightarrow> classify ext name w1 = Inr w2 \<Longrightarrow> I w2"
  shows "I w'"
  using assms(1,2)
proof (induction names arbitrary: w)
  case Nil
  then show ?case by simp
next
  case (Cons name names)
  from Cons.prems(1) obtain w1 where s: "classify ext name w = Inr w1"
    and r: "classifyAll ext names w1 = Inr w'"
    by (auto split: sum.splits)
  have "I w1" using Cons.prems(2) s by (rule step)
  with r show ?case by (rule Cons.IH)
qed

lemma update_entries:
  "kv \<in> set (AList.update k v al) \<Longrightarrow> kv = (k, v) \<or> kv \<in> set al"
  by (induction al) (auto split: if_splits)

lemma classify_walked:
  assumes "walked ext p0 w" and "classify ext name w = Inr w'"
  shows "walked ext p0 w'"
proof -
  obtain p F S where w: "w = (p, F, S)" by (cases w)
  from assms(1) w have pk: "p_pkg p = p_pkg p0" and d: "p_doc p = p_doc p0"
    by (simp_all add: walked_def)
  have en: "\<And>obj. scopeLookup (pkgScope (p_pkg p0)) name = Some obj \<Longrightarrow> Exported ext obj \<Longrightarrow>
              exportedName ext (pkgScope (p_pkg p0)) (objName obj)"
    by (simp add: exportedName_def scopeLookup_name)
  from assms(2) [unfolded w] show ?thesis
  proof (cases rule: classify_Inr_cases)
    case (skip obj)
    with assms(1) w show ?thesis by simp
  next
    case (const pk' t c)
    then have "constEntry ext (p_doc p0) (pkgScope (p_pkg p0)) c"
      unfolding constEntry_def pk d by blast
    with assms(1) w const en [of "TConst pk' name t"] show ?thesis
      by (auto simp: walked_def addConst_def addSymbol_def pk)
  next
    case (var pk' t)
    then have "varEntry ext (p_doc p0) (pkgScope (p_pkg p0))
                 (newVarFrom (p_doc p0) \<lparr>vName = name, vType = t\<rparr>)"
      unfolding varEntry_def pk d by blast
    with assms(1) w var en [of "TVar pk' name t"] show ?thesis
      by (auto simp: walked_def addVar_def addSymbol_def pk d)
  next
    case (func pk' sig hp f)
    then have "funcEntry ext (p_doc p0) (pkgScope (p_pkg p0)) name f"
      unfolding funcEntry_def pk d by blast
    with assms(1) w func en [of "TFunc pk' name sig hp"] show ?thesis
      by (auto simp: walked_def addSymbol_def pk distinct_update dest!: update_entries)
  next
    case (struct pk' pp nn s)
    then have "structEntry ext (p_doc p0) (pkgScope (p_pkg p0)) name s"
      unfolding structEntry_def pk d by blast
    with assms(1) w struct en [of "TTypeName pk' name (Named pp nn) StructU"] show ?thesis
      by (auto simp: walked_def addSymbol_def pk distinct_update dest!: update_entries)
  qed
qed

lemma classifyAll_walked:
  assumes "classifyAll ext names w = Inr w'" and "walked ext p0 w"
  shows "walked ext p0 w'"
  using assms(1,2) classify_walked by (rule classifyAll_invariant)

lemma walked_start:
  "p_syms p0 = Map.empty \<Longrightarrow> p_consts p0 = [] \<Longrightarrow> p_vars p0 = [] \<Longrightarrow> walked ext p0 (p0, [], [])"
  by (simp add: walked_def)

section \<open>The completed package\<close>

lemma NewPackage_closed:
  assumes "valid_schedule sch" and "NewPackage ext sch pkg doc = Inr p"
  obtains p1 F S where
    "walked ext \<lparr>p_pkg = pkg, p_doc = doc, p_syms = newSymtab, p_objs = Map.empty,
        p_consts = [], p_vars = [], p_structs = [], p_funcs = []\<rparr> (p1, F, S)"
    and "p_consts p = p_consts p1" and "p_vars p = p_vars p1" and "p_syms p = p_syms p1"
    and "p_pkg p = pkg" and "p_doc p = doc"
    and "p_structs p = structModels ext sch doc (pkgScope pkg) S (structsOrder sch (map fst S)) F"
    and "p_funcs p =
           funcModels (remaining S (structsOrder sch (map fst S)) F)
             (restOrder sch (map fst (remaining S (structsOrder sch (map fst S)) F)))"
    and "p_objs p = map_of (rev (map structObj (p_structs p)))
                      ++ map_of (rev (map funcObj (p_funcs p)))"
    and "reclassify ext sch S (structsOrder sch (map fst S)) (p1, F) =
           Inr (p\<lparr>p_funcs := [], p_objs := map_of (rev (map structObj (p_structs p)))\<rparr>,
                remaining S (structsOrder sch (map fst S)) F)"
    and "classifyAll ext (scopeNames (pkgScope pkg))
           (\<lparr>p_pkg = pkg, p_doc = doc, p_syms = newSymtab, p_objs = Map.empty,
              p_consts = [], p_vars = [], p_structs = [], p_funcs = []\<rparr>, [], [])
         = Inr (p1, F, S)"
proof -
  let ?p0 = "\<lparr>p_pkg = pkg, p_doc = doc, p_syms = newSymtab, p_objs = Map.empty,
        p_consts = [], p_vars = [], p_structs = [], p_funcs = []\<rparr>"
  from assms(2) obtain p1 F S where
    c: "classifyAll ext (scopeNames (pkgScope pkg)) (?p0, [], []) = Inr (p1, F, S)"
    by (auto simp: NewPackage_def process_def split: sum.splits)
  from assms(2) c obtain p2 F' where
    r: "reclassify ext sch S (structsOrder sch (map fst S)) (p1, F) = Inr (p2, F')"
    and p: "p = addFuncs F' (restOrder sch (map fst F')) p2"
    by (auto simp: NewPackage_def process_def split: sum.splits)
  have w: "walked ext ?p0 (p1, F, S)"
    using c by (rule classifyAll_walked) (simp add: walked_def newSymtab_def)
  then have fr: "p_pkg p1 = pkg" "p_doc p1 = doc" "p_objs p1 = Map.empty" "p_structs p1 = []"
    "p_funcs p1 = []" and dF: "distinct (map fst F)"
    by (simp_all add: walked_def)
  from reclassify_closed [OF assms(1) r dF] fr
  have F': "F' = remaining S (structsOrder sch (map fst S)) F"
    and p2: "p2 = p1\<lparr>p_structs :=
                 structModels ext sch doc (pkgScope pkg) S (structsOrder sch (map fst S)) F,
               p_objs := map_of (rev (map structObj
                 (structModels ext sch doc (pkgScope pkg) S (structsOrder sch (map fst S)) F)))\<rparr>"
    by simp_all
  have p': "p = p2\<lparr>p_funcs := p_funcs p2 @ funcModels F' (restOrder sch (map fst F')),
       p_objs := p_objs p2 ++
         map_of (rev (map funcObj (funcModels F' (restOrder sch (map fst F')))))\<rparr>"
    unfolding p by (rule addFuncs_closed)
  show thesis
  proof (rule that [OF w])
    show "p_consts p = p_consts p1" "p_vars p = p_vars p1" "p_syms p = p_syms p1"
      "p_pkg p = pkg" "p_doc p = doc"
      using p' p2 fr by simp_all
    show s: "p_structs p =
        structModels ext sch doc (pkgScope pkg) S (structsOrder sch (map fst S)) F"
      using p' p2 by simp
    show f: "p_funcs p =
           funcModels (remaining S (structsOrder sch (map fst S)) F)
             (restOrder sch (map fst (remaining S (structsOrder sch (map fst S)) F)))"
      using p' p2 fr F' by simp
    show "p_objs p = map_of (rev (map structObj (p_structs p)))
                      ++ map_of (rev (map funcObj (p_funcs p)))"
      unfolding s f using p' p2 F' by simp
    show "reclassify ext sch S (structsOrder sch (map fst S)) (p1, F) =
           Inr (p\<lparr>p_funcs := [], p_objs := map_of (rev (map structObj (p_structs p)))\<rparr>,
                remaining S (structsOrder sch (map fst S)) F)"
      unfolding r F' [symmetric] s using p' p2 fr by simp
    show "classifyAll ext (scopeNames (pkgScope pkg)) (?p0, [], []) = Inr (p1, F, S)"
      by (rule c)
  qed
qed

subsection \<open>The structs of the package\<close>

lemma newStruct_fields:
  "newStruct ext d obj = Inr s \<Longrightarrow>
     s_obj s = obj \<and> s_ctors s = [] \<and> s_meths s = [] \<and> s_prots s = 0 \<and>
     (\<exists>pn. objPkg obj = Some pn \<and> s_id s = pn @ ''_'' @ objName obj)"
  by (auto simp: newStruct_def split: option.splits sum.splits)

lemma structEntry_fields:
  "structEntry ext d scope k s \<Longrightarrow>
     s_GoName s = k \<and> s_ctors s = [] \<and> s_meths s = [] \<and> s_prots s = 0 \<and>
     scopeLookup scope k = Some (s_obj s) \<and> Exported ext (s_obj s) \<and>
     (\<exists>pk pp nn. s_obj s = TTypeName pk k (Named pp nn) StructU)"
  unfolding structEntry_def by (auto dest!: newStruct_fields simp: s_GoName_def)

lemma structModel_fields [simp]:
  "s_obj (structModel ext sch d scope F k s) = s_obj s"
  "s_id (structModel ext sch d scope F k s) = s_id s"
  "s_doc (structModel ext sch d scope F k s) = s_doc s"
  "s_GoName (structModel ext sch d scope F k s) = s_GoName s"
  "s_GoType (structModel ext sch d scope F k s) = s_GoType s"
  "methodSetOf ext' (structModel ext sch d scope F k s) = methodSetOf ext' s"
  by (simp_all add: structModel_def s_GoName_def s_GoType_def methodSetOf_def)

text \<open>Every struct of the list comes from an entry of \<open>structs\<close>, visited with
  some state of \<open>funcs\<close>.\<close>

lemma structModels_mem:
  "s' \<in> set (structModels ext sch d scope S snames F) \<Longrightarrow>
     \<exists>k s F1. k \<in> set snames \<and> map_of S k = Some s \<and> s' = structModel ext sch d scope F1 k s"
proof (induction snames arbitrary: F)
  case Nil
  then show ?case by simp
next
  case (Cons sname snames)
  show ?case
  proof (cases "map_of S sname")
    case None
    with Cons show ?thesis by fastforce
  next
    case (Some s)
    with Cons.prems
    consider "s' = structModel ext sch d scope F sname s"
      | "s' \<in> set (structModels ext sch d scope S snames (unclaimed s F))"
      by auto
    then show ?thesis
    proof cases
      case 1
      with Some show ?thesis by fastforce
    next
      case 2
      from Cons.IH [OF this] show ?thesis by fastforce
    qed
  qed
qed

lemma claimCtors_obj:
  "claimCtors ext d scope sname names (F, s) = Inr (F', s') \<Longrightarrow> s_obj s' = s_obj s"
proof (induction names arbitrary: F s)
  case Nil
  then show ?case by simp
next
  case (Cons name names)
  show ?case
  proof (cases "map_of F name")
    case None
    with Cons show ?thesis by simp
  next
    case (Some fct)
    show ?thesis
    proof (cases "f_Return fct \<noteq> None \<and> f_Return fct = s_GoType s")
      case False
      with Cons Some show ?thesis by (auto split: if_splits)
    next
      case True
      then have r: "f_Return fct \<noteq> None" "f_Return fct = s_GoType s" by blast+
      from Cons.prems Some r obtain doc where
        "claimCtors ext d scope sname names
           (AList.delete name F,
            s\<lparr>s_ctors := s_ctors s @ [fct\<lparr>f_doc := doc, f_ctor := True\<rparr>]\<rparr>) = Inr (F', s')"
        by (auto split: option.splits sum.splits)
      from Cons.IH [OF this] show ?thesis by simp
    qed
  qed
qed

lemma reclassify_methods_ok:
  "reclassify ext sch S snames (p, F) = Inr (p', F') \<Longrightarrow> k \<in> set snames \<Longrightarrow>
     map_of S k = Some s \<Longrightarrow> m \<in> set (methodSetOf ext s) \<Longrightarrow> Exported ext (selObj m) \<Longrightarrow>
     \<exists>f. newFuncFrom ext (p_doc p) k (selObj m) (selType m) = Inr f"
proof (induction snames arbitrary: p F)
  case Nil
  then show ?case by simp
next
  case (Cons sname snames)
  show ?case
  proof (cases "map_of S sname")
    case None
    with Cons.prems(1) have r: "reclassify ext sch S snames (p, F) = Inr (p', F')" by simp
    from None Cons.prems(2,3) have "k \<in> set snames" by auto
    from Cons.IH [OF r this Cons.prems(3-5)] show ?thesis .
  next
    case (Some s0)
    from Cons.prems(1) Some obtain F1 s1 s2 where
      c: "claimCtors ext (p_doc p) (pkgScope (p_pkg p)) sname
            (funcsOrder sch sname (map fst F)) (F, s0) = Inr (F1, s1)"
      and m: "addMeths ext (p_doc p) sname (methodSetOf ext s1) s1 = Inr s2"
      and r: "reclassify ext sch S snames (addStruct p s2, F1) = Inr (p', F')"
      by (auto split: sum.splits)
    show ?thesis
    proof (cases "k = sname")
      case True
      with Some Cons.prems(3) have s: "s = s0" by simp
      have "s_obj s1 = s_obj s0"
        using c by (rule claimCtors_obj)
      then have "methodSetOf ext s1 = methodSetOf ext s0"
        by (simp add: methodSetOf_def s_GoType_def)
      with addMeths_success [OF m] Cons.prems(4,5) s True show ?thesis by simp
    next
      case False
      with Cons.prems(2) have "k \<in> set snames" by simp
      from Cons.IH [OF r this Cons.prems(3-5)] show ?thesis by (simp add: addStruct_def)
    qed
  qed
qed

lemma struct_of_package:
  assumes "valid_schedule sch" and "NewPackage ext sch pkg doc = Inr p"
    and "s' \<in> set (p_structs p)"
  obtains k s F1 where "s_GoName s' = k" and "structEntry ext doc (pkgScope pkg) k s"
    and "s' = structModel ext sch doc (pkgScope pkg) F1 k s"
    and "\<forall>m \<in> set (methodSetOf ext s). Exported ext (selObj m) \<longrightarrow>
           (\<exists>f. newFuncFrom ext doc k (selObj m) (selType m) = Inr f)"
proof -
  from assms(1,2) obtain p1 F S where
    w: "walked ext \<lparr>p_pkg = pkg, p_doc = doc, p_syms = newSymtab, p_objs = Map.empty,
        p_consts = [], p_vars = [], p_structs = [], p_funcs = []\<rparr> (p1, F, S)"
    and st: "p_structs p =
        structModels ext sch doc (pkgScope pkg) S (structsOrder sch (map fst S)) F"
    and r: "reclassify ext sch S (structsOrder sch (map fst S)) (p1, F) =
           Inr (p\<lparr>p_funcs := [], p_objs := map_of (rev (map structObj (p_structs p)))\<rparr>,
                remaining S (structsOrder sch (map fst S)) F)"
    by (rule NewPackage_closed)
  from assms(3) st obtain k s F1 where k: "k \<in> set (structsOrder sch (map fst S))"
    and s: "map_of S k = Some s" and s': "s' = structModel ext sch doc (pkgScope pkg) F1 k s"
    by (auto dest!: structModels_mem)
  from s have "(k, s) \<in> set S" by (rule map_of_SomeD)
  with w have e: "structEntry ext doc (pkgScope pkg) k s"
    by (auto simp: walked_def)
  then have n: "s_GoName s' = k"
    using s' by (simp add: structEntry_fields)
  from w have d: "p_doc p1 = doc" by (simp add: walked_def)
  have ok: "\<forall>m \<in> set (methodSetOf ext s). Exported ext (selObj m) \<longrightarrow>
           (\<exists>f. newFuncFrom ext doc k (selObj m) (selType m) = Inr f)"
    using reclassify_methods_ok [OF r k s] by (simp add: d)
  from n e s' ok show thesis by (rule that)
qed

lemma struct_methods_closed:
  assumes "valid_schedule sch" and "NewPackage ext sch pkg doc = Inr p"
    and "s \<in> set (p_structs p)"
  shows "s_meths s = methodModels ext doc (s_GoName s) (methodSetOf ext s)"
    and "s_prots s = protsAfter ext (methodSetOf ext s) 0"
    and "list_all2 (\<lambda>m f. newFuncFrom ext doc (s_GoName s) (selObj m) (selType m) = Inr f)
           (filter (\<lambda>m. Exported ext (selObj m)) (methodSetOf ext s)) (s_meths s)"
proof -
  from assms obtain k s0 F1 where n: "s_GoName s = k"
    and e: "structEntry ext doc (pkgScope pkg) k s0"
    and s: "s = structModel ext sch doc (pkgScope pkg) F1 k s0"
    and ok: "\<forall>m \<in> set (methodSetOf ext s0). Exported ext (selObj m) \<longrightarrow>
           (\<exists>f. newFuncFrom ext doc k (selObj m) (selType m) = Inr f)"
    by (rule struct_of_package)
  have m: "methodSetOf ext s = methodSetOf ext s0"
    by (subst s) simp
  from e have z: "s_meths s0 = []" "s_prots s0 = 0"
    by (simp_all add: structEntry_fields)
  show ms: "s_meths s = methodModels ext doc (s_GoName s) (methodSetOf ext s)"
    unfolding m n by (subst s) (simp add: structModel_def z)
  show "s_prots s = protsAfter ext (methodSetOf ext s) 0"
    unfolding m by (subst s) (simp add: structModel_def z)
  have "list_all2 (\<lambda>m f. newFuncFrom ext doc k (selObj m) (selType m) = Inr f)
           (filter (\<lambda>m. Exported ext (selObj m)) (methodSetOf ext s0))
           (methodModels ext doc k (methodSetOf ext s0))"
    using ok by (intro methodModels_all2) blast
  then show "list_all2
           (\<lambda>m f. newFuncFrom ext doc (s_GoName s) (selObj m) (selType m) = Inr f)
           (filter (\<lambda>m. Exported ext (selObj m)) (methodSetOf ext s)) (s_meths s)"
    unfolding ms unfolding m n .
qed

lemma list_all2_left:
  "list_all2 R xs ys \<Longrightarrow> x \<in> set xs \<Longrightarrow> \<exists>y \<in> set ys. R x y"
  by (induction rule: list_all2_induct) auto

lemma list_all2_right:
  "list_all2 R xs ys \<Longrightarrow> y \<in> set ys \<Longrightarrow> \<exists>x \<in> set xs. R x y"
  by (induction rule: list_all2_induct) auto

text \<open>
  C4. In the completed package, the method list of every struct holds, in the
  order of the method set of the pointer to the struct's type, exactly one
  model for each exported method of that set (promoted methods are in the set
  like the others), built with the struct as the enclosing type: every
  exported method has its model in the list, and every model in the list is
  the model of an exported method, so none is of an unexported one.
\<close>

theorem struct_methods:
  assumes "valid_schedule sch" and "NewPackage ext sch pkg doc = Inr p"
    and "s \<in> set (p_structs p)"
  shows "list_all2 (\<lambda>m f. newFuncFrom ext doc (s_GoName s) (selObj m) (selType m) = Inr f)
           (filter (\<lambda>m. Exported ext (selObj m)) (methodSetOf ext s)) (s_meths s) \<and>
         (\<forall>m \<in> set (methodSetOf ext s). Exported ext (selObj m) \<longrightarrow>
            (\<exists>f \<in> set (s_meths s).
               newFuncFrom ext doc (s_GoName s) (selObj m) (selType m) = Inr f)) \<and>
         (\<forall>f \<in> set (s_meths s). \<exists>m \<in> set (methodSetOf ext s). Exported ext (selObj m) \<and>
            newFuncFrom ext doc (s_GoName s) (selObj m) (selType m) = Inr f)"
proof -
  have all2:
    "list_all2 (\<lambda>m f. newFuncFrom ext doc (s_GoName s) (selObj m) (selType m) = Inr f)
           (filter (\<lambda>m. Exported ext (selObj m)) (methodSetOf ext s)) (s_meths s)"
    using assms by (rule struct_methods_closed(3))
  have "\<forall>m \<in> set (methodSetOf ext s). Exported ext (selObj m) \<longrightarrow>
            (\<exists>f \<in> set (s_meths s).
               newFuncFrom ext doc (s_GoName s) (selObj m) (selType m) = Inr f)"
    using list_all2_left [OF all2] by simp
  moreover have "\<forall>f \<in> set (s_meths s). \<exists>m \<in> set (methodSetOf ext s). Exported ext (selObj m) \<and>
            newFuncFrom ext doc (s_GoName s) (selObj m) (selType m) = Inr f"
    using list_all2_right [OF all2] by fastforce
  ultimately show ?thesis
    using all2 by blast
qed

lemmas geo_defs =
  geo_ext_def geo_pkg_def geo_doc_def obj_Point_def methodSel_def
  sig_NewPoint_def sig_String_def sig_norm_def sig_Dist_def tPoint_def sched_id_def sched_rev_def

lemmas model_defs =
  NewPackage_def process_def classify_def scopeNames_def scopeLookup_def newSymtab_def
  addSymbol_def newConst_def newStruct_def newVar_def newSignature_def addConst_def addVar_def
  addStruct_def addFunc_def methodSetOf_def s_GoType_def s_GoName_def f_GoName_def f_Return_def
  ProtoStringer_def

lemma valid_sched_id: "valid_schedule sched_id"
  by (simp add: valid_schedule_def sched_id_def)

lemma valid_sched_rev: "valid_schedule sched_rev"
  by (simp add: valid_schedule_def sched_rev_def)

lemma geo_run:
  "\<exists>p s. NewPackage geo_ext sched_id geo_pkg geo_doc = Inr p \<and> p_structs p = [s] \<and>
     s_obj s = obj_Point \<and> map f_name (s_meths s) = [''String''] \<and>
     map f_id (s_meths s) = [''geo_Point_String''] \<and>
     map f_name (s_ctors s) = [''NewPoint''] \<and> map f_name (p_funcs p) = [''Dist''] \<and>
     map c_id (p_consts p) = [''geo_Dim'']"
  by (simp add: model_defs builder_defs ex_defs geo_defs Let_def)

theorem struct_methods_witness:
  "\<exists>p s. NewPackage geo_ext sched_id geo_pkg geo_doc = Inr p \<and> s \<in> set (p_structs p) \<and>
     map (\<lambda>m. objName (selObj m)) (methodSetOf geo_ext s) = [''String'', ''norm''] \<and>
     map f_name (s_meths s) = [''String''] \<and>
     list_all2 (\<lambda>m f. newFuncFrom geo_ext geo_doc (s_GoName s) (selObj m) (selType m) = Inr f)
       (filter (\<lambda>m. Exported geo_ext (selObj m)) (methodSetOf geo_ext s)) (s_meths s)"
proof -
  from geo_run obtain p s where run: "NewPackage geo_ext sched_id geo_pkg geo_doc = Inr p"
    and s: "p_structs p = [s]" "s_obj s = obj_Point" "map f_name (s_meths s) = [''String'']"
    by (elim exE conjE)
  from s have mem: "s \<in> set (p_structs p)" by simp
  have ms: "map (\<lambda>m. objName (selObj m)) (methodSetOf geo_ext s) = [''String'', ''norm'']"
    by (simp add: methodSetOf_def s_GoType_def s geo_defs ex_ext_def)
  from struct_methods [OF valid_sched_id run mem]
  have a: "list_all2
       (\<lambda>m f. newFuncFrom geo_ext geo_doc (s_GoName s) (selObj m) (selType m) = Inr f)
       (filter (\<lambda>m. Exported geo_ext (selObj m)) (methodSetOf geo_ext s)) (s_meths s)"
    by (rule conjunct1)
  show ?thesis
    by (rule exI [of _ p], rule exI [of _ s]) (simp only: run mem ms s(3) a simp_thms)
qed

text \<open>
  C5. In the completed package, the capability mask of a struct has the bit
  \<open>ProtoStringer\<close> set exactly when some exported method of the method set of
  the pointer to the struct's type is a stringer (\<open>isStringer\<close>).
\<close>

theorem struct_stringer_bit:
  assumes "valid_schedule sch" and "NewPackage ext sch pkg doc = Inr p"
    and "s \<in> set (p_structs p)"
  shows "s_prots s AND ProtoStringer \<noteq> 0 \<longleftrightarrow>
           (\<exists>m \<in> set (methodSetOf ext s). Exported ext (selObj m) \<and> isStringer ext (selObj m))"
proof -
  have "s_prots s = protsAfter ext (methodSetOf ext s) 0"
    using assms by (rule struct_methods_closed(2))
  then show ?thesis
    by (simp add: protsAfter_def ProtoStringer_def)
qed

theorem struct_stringer_bit_witness:
  "\<exists>p s. NewPackage geo_ext sched_id geo_pkg geo_doc = Inr p \<and> s \<in> set (p_structs p) \<and>
     (\<exists>m \<in> set (methodSetOf geo_ext s).
        Exported geo_ext (selObj m) \<and> isStringer geo_ext (selObj m)) \<and>
     s_prots s AND ProtoStringer \<noteq> 0"
proof -
  from geo_run obtain p s where run: "NewPackage geo_ext sched_id geo_pkg geo_doc = Inr p"
    and s: "p_structs p = [s]" "s_obj s = obj_Point"
    by (elim exE conjE)
  from s have mem: "s \<in> set (p_structs p)" by simp
  have str: "\<exists>m \<in> set (methodSetOf geo_ext s).
        Exported geo_ext (selObj m) \<and> isStringer geo_ext (selObj m)"
    by (simp add: methodSetOf_def s_GoType_def s geo_defs ex_defs)
  then have bit: "s_prots s AND ProtoStringer \<noteq> 0"
    using struct_stringer_bit [OF valid_sched_id run mem] by blast
  show ?thesis
    by (rule exI [of _ p], rule exI [of _ s]) (simp only: run mem str bit simp_thms)
qed

subsection \<open>Functions and constructors\<close>

lemma unclaimed_subset: "set (unclaimed s F) \<subseteq> set F"
  by (auto simp: unclaimed_def)

lemma structModels_origin:
  "s' \<in> set (structModels ext sch d scope S snames F) \<Longrightarrow> distinct (map fst F) \<Longrightarrow>
     \<exists>k s F1. k \<in> set snames \<and> map_of S k = Some s \<and> set F1 \<subseteq> set F \<and>
       distinct (map fst F1) \<and> s' = structModel ext sch d scope F1 k s"
proof (induction snames arbitrary: F)
  case Nil
  then show ?case by simp
next
  case (Cons sname snames)
  show ?case
  proof (cases "map_of S sname")
    case None
    with Cons.prems have "s' \<in> set (structModels ext sch d scope S snames F)" by simp
    from Cons.IH [OF this Cons.prems(2)]
    obtain k s0 F1 where "k \<in> set snames" "map_of S k = Some s0"
      "set F1 \<subseteq> set F" "distinct (map fst F1)"
      "s' = structModel ext sch d scope F1 k s0"
      by (elim exE conjE)
    then have "k \<in> set (sname # snames) \<and> map_of S k = Some s0 \<and> set F1 \<subseteq> set F \<and>
        distinct (map fst F1) \<and> s' = structModel ext sch d scope F1 k s0"
      by simp
    then show ?thesis by (intro exI)
  next
    case (Some s)
    have sm: "structModels ext sch d scope S (sname # snames) F =
        structModel ext sch d scope F sname s
          # structModels ext sch d scope S snames (unclaimed s F)"
      using Some by simp
    from Cons.prems(1) [unfolded sm]
    consider "s' = structModel ext sch d scope F sname s"
      | "s' \<in> set (structModels ext sch d scope S snames (unclaimed s F))"
      by (simp only: set_simps insert_iff) blast
    then show ?thesis
    proof cases
      case 1
      have "sname \<in> set (sname # snames) \<and> map_of S sname = Some s \<and> set F \<subseteq> set F \<and>
        distinct (map fst F) \<and> s' = structModel ext sch d scope F sname s"
        using 1 Some Cons.prems(2) by simp
      then show ?thesis by (intro exI)
    next
      case 2
      from Cons.IH [OF this unclaimed_distinct [OF Cons.prems(2)]]
      obtain k s0 F1 where "k \<in> set snames" "map_of S k = Some s0"
        "set F1 \<subseteq> set (unclaimed s F)" "distinct (map fst F1)"
        "s' = structModel ext sch d scope F1 k s0"
        by (elim exE conjE)
      then have "k \<in> set (sname # snames) \<and> map_of S k = Some s0 \<and> set F1 \<subseteq> set F \<and>
        distinct (map fst F1) \<and> s' = structModel ext sch d scope F1 k s0"
        using unclaimed_subset [of s F] by simp
      then show ?thesis by (intro exI)
    qed
  qed
qed

lemma remaining_mem:
  "kf \<in> set (remaining S snames F) \<longleftrightarrow>
     kf \<in> set F \<and> (\<forall>k \<in> set snames. \<forall>s. map_of S k = Some s \<longrightarrow> \<not> matches s (snd kf))"
proof (induction snames arbitrary: F)
  case Nil
  then show ?case by simp
next
  case (Cons sname snames)
  show ?case
  proof (cases "map_of S sname")
    case None
    with Cons show ?thesis by auto
  next
    case (Some s)
    with Cons [of "unclaimed s F"] show ?thesis
      by (auto simp: unclaimed_def)
  qed
qed

lemma remaining_distinct: "distinct (map fst F) \<Longrightarrow> distinct (map fst (remaining S snames F))"
proof (induction snames arbitrary: F)
  case Nil
  then show ?case by simp
next
  case (Cons sname snames)
  then show ?case
    by (cases "map_of S sname") (simp_all add: unclaimed_distinct)
qed

lemma claimed_subset:
  "kf \<in> set (claimed F s names) \<Longrightarrow> kf \<in> set F \<and> matches s (snd kf)"
proof (induction names)
  case Nil
  then show ?case by simp
next
  case (Cons k ks)
  then show ?case
    by (auto simp: claimed_Cons split: option.splits if_splits dest: map_of_SomeD)
qed

lemma structModel_ctor:
  assumes "c \<in> set (s_ctors (structModel ext sch d scope F k s))" and "s_ctors s = []"
  obtains kf where "kf \<in> set F" and "matches s (snd kf)" and "c = ctorOf ext d scope k kf"
  using assms by (auto simp: structModel_def dest: claimed_subset)

lemma ctorOf_fields [simp]:
  "f_name (ctorOf ext d scope sname kf) = f_name (snd kf)"
  "f_id (ctorOf ext d scope sname kf) = f_id (snd kf)"
  "f_ret (ctorOf ext d scope sname kf) = f_ret (snd kf)"
  "f_err (ctorOf ext d scope sname kf) = f_err (snd kf)"
  "f_sig (ctorOf ext d scope sname kf) = f_sig (snd kf)"
  "f_ctor (ctorOf ext d scope sname kf) = True"
  "f_doc (ctorOf ext d scope sname kf) = ctorDoc ext d scope sname (fst kf)"
  by (simp_all add: ctorOf_def)

text \<open>The functions left and the constructors of the structs together are the
  functions the walk collected, each once.\<close>

lemma funcs_partition:
  assumes valid: "valid_schedule sch"
    and g: "\<And>sname kf. g (ctorOf ext d scope sname kf) = g (snd kf)"
    and empty: "\<forall>ks \<in> set S. s_ctors (snd ks) = []"
  shows "distinct (map fst F) \<Longrightarrow>
     mset (map (\<lambda>kf. g (snd kf)) (remaining S snames F)) +
       mset (concat (map (\<lambda>s. map g (s_ctors s)) (structModels ext sch d scope S snames F)))
     = mset (map (\<lambda>kf. g (snd kf)) F)"
proof (induction snames arbitrary: F)
  case Nil
  then show ?case by simp
next
  case (Cons sname snames)
  show ?case
  proof (cases "map_of S sname")
    case None
    with Cons show ?thesis by simp
  next
    case (Some s)
    then have "(sname, s) \<in> set S" by (rule map_of_SomeD)
    with empty have e: "s_ctors s = []" by auto
    let ?names = "funcsOrder sch sname (map fst F)"
    have perm: "mset ?names = mset (map fst F)"
      using valid by (simp add: valid_schedule_def)
    have c: "image_mset g (mset (s_ctors (structModel ext sch d scope F sname s)))
               = image_mset (\<lambda>kf. g (snd kf)) (filter_mset (\<lambda>kf. matches s (snd kf)) (mset F))"
    proof -
      have "image_mset g (mset (s_ctors (structModel ext sch d scope F sname s)))
          = image_mset (\<lambda>kf. g (snd kf)) (mset (claimed F s ?names))"
        by (simp add: structModel_def e g image_mset.compositionality comp_def)
      then show ?thesis
        by (simp only: claimed_mset [OF Cons.prems perm])
    qed
    have u: "image_mset (\<lambda>kf. g (snd kf)) (mset (unclaimed s F))
               = image_mset (\<lambda>kf. g (snd kf)) (filter_mset (\<lambda>kf. \<not> matches s (snd kf)) (mset F))"
      by (simp add: unclaimed_def)
    have "mset F = filter_mset (\<lambda>kf. matches s (snd kf)) (mset F)
                   + filter_mset (\<lambda>kf. \<not> matches s (snd kf)) (mset F)"
      by (rule multiset_partition)
    then have "image_mset (\<lambda>kf. g (snd kf)) (mset F)
        = image_mset (\<lambda>kf. g (snd kf)) (filter_mset (\<lambda>kf. matches s (snd kf)) (mset F)
            + filter_mset (\<lambda>kf. \<not> matches s (snd kf)) (mset F))"
      by (rule arg_cong)
    then have split: "mset (map (\<lambda>kf. g (snd kf)) F)
        = mset (map g (s_ctors (structModel ext sch d scope F sname s)))
          + mset (map (\<lambda>kf. g (snd kf)) (unclaimed s F))"
      by (simp only: c u mset_map image_mset_union)
    have IH: "mset (map (\<lambda>kf. g (snd kf)) (remaining S snames (unclaimed s F))) +
       mset (concat (map (\<lambda>s. map g (s_ctors s))
          (structModels ext sch d scope S snames (unclaimed s F))))
       = mset (map (\<lambda>kf. g (snd kf)) (unclaimed s F))"
      using Cons.prems by (intro Cons.IH unclaimed_distinct)
    have "mset (map (\<lambda>kf. g (snd kf)) (remaining S (sname # snames) F)) +
       mset (concat (map (\<lambda>s. map g (s_ctors s))
          (structModels ext sch d scope S (sname # snames) F)))
       = mset (map g (s_ctors (structModel ext sch d scope F sname s)))
         + (mset (map (\<lambda>kf. g (snd kf)) (remaining S snames (unclaimed s F))) +
            mset (concat (map (\<lambda>s. map g (s_ctors s))
              (structModels ext sch d scope S snames (unclaimed s F)))))"
      using Some by (simp del: mset_map)
    then show ?thesis
      by (simp only: IH split)
  qed
qed

lemma map_filter_total:
  "\<forall>k \<in> set ks. g k \<noteq> None \<Longrightarrow> List.map_filter g ks = map (\<lambda>k. the (g k)) ks"
  by (induction ks) (auto simp: List.map_filter_simps)

lemma funcModels_mset:
  assumes "distinct (map fst F)" and "mset names = mset (map fst F)"
  shows "mset (funcModels F names) = mset (map snd F)"
proof -
  have sn: "set names = fst ` set F"
    using assms(2) by (metis mset_eq_setD set_map)
  have "\<forall>k \<in> set names. map_of F k \<noteq> None"
    unfolding sn by (simp add: map_of_eq_None_iff)
  then have "funcModels F names = map (\<lambda>k. the (map_of F k)) names"
    unfolding funcModels_def by (rule map_filter_total)
  then have "mset (funcModels F names) = image_mset (\<lambda>k. the (map_of F k)) (mset names)"
    by simp
  also have "\<dots> = image_mset (\<lambda>k. the (map_of F k)) (mset (map fst F))"
    by (simp only: assms(2))
  also have "\<dots> = mset (map (\<lambda>kf. the (map_of F (fst kf))) F)"
    by (simp add: image_mset.compositionality comp_def)
  also have "map (\<lambda>kf. the (map_of F (fst kf))) F = map snd F"
  proof (intro map_cong refl)
    fix kf assume "kf \<in> set F"
    then have "(fst kf, snd kf) \<in> set F" by simp
    then have "map_of F (fst kf) = Some (snd kf)"
      by (simp only: map_of_distinct_iff [OF assms(1)])
    then show "the (map_of F (fst kf)) = snd kf" by simp
  qed
  finally show ?thesis .
qed

subsection \<open>Where the entries of the package come from\<close>

lemma newFuncFrom_fields:
  "newFuncFrom ext d parent obj sig = Inr f \<Longrightarrow>
     f_name f = objName obj \<and> f_ctor f = False \<and> getDoc ext d parent obj = Inr (f_doc f) \<and>
     (\<exists>pn. objPkg obj = Some pn \<and> f_id f = funcId pn parent (objName obj))"
  by (auto simp: newFuncFrom_def split: sum.splits option.splits prod.splits)

lemma funcEntry_fields:
  "funcEntry ext d scope k f \<Longrightarrow>
     f_name f = k \<and> f_ctor f = False \<and>
     (\<exists>pk sig hp. scopeLookup scope k = Some (TFunc pk k sig hp) \<and>
        Exported ext (TFunc pk k sig hp))"
  unfolding funcEntry_def by (auto dest!: newFuncFrom_fields)

lemma newConst_fields:
  "newConst ext d pk n t = Inr c \<Longrightarrow>
     c_obj c = TConst pk n t \<and> (\<exists>pn. pk = Some pn \<and> c_id c = pn @ ''_'' @ n)"
  by (auto simp: newConst_def split: option.splits sum.splits)

lemma constEntry_fields:
  "constEntry ext d scope c \<Longrightarrow>
     scopeLookup scope (objName (c_obj c)) = Some (c_obj c) \<and> Exported ext (c_obj c) \<and>
     (\<exists>pk t. c_obj c = TConst pk (objName (c_obj c)) t)"
  unfolding constEntry_def by (auto dest!: newConst_fields)

lemma varEntry_fields:
  "varEntry ext d scope v \<Longrightarrow>
     \<exists>pk t. scopeLookup scope (var_name v) = Some (TVar pk (var_name v) t) \<and>
       Exported ext (TVar pk (var_name v) t)"
  unfolding varEntry_def by (auto simp: newVarFrom_def)

lemma funcModels_mem: "f \<in> set (funcModels F names) \<Longrightarrow> \<exists>k. (k, f) \<in> set F"
  unfolding funcModels_def
  by (induction names) (auto simp: List.map_filter_simps split: option.splits dest: map_of_SomeD)

text \<open>The walk keeps the keys it has, and enters the name of every exported
  function it meets.\<close>

lemma classify_func_keys:
  assumes "classify ext name (p, F, S) = Inr (p', F', S')"
  shows "p_pkg p' = p_pkg p \<and> fst ` set F \<subseteq> fst ` set F' \<and>
         (\<forall>pk sig hp. scopeLookup (pkgScope (p_pkg p)) name = Some (TFunc pk name sig hp) \<and>
             Exported ext (TFunc pk name sig hp) \<longrightarrow> name \<in> fst ` set F')"
  using assms
  by (cases rule: classify_Inr_cases) (auto simp: addConst_def addVar_def dom_update)

lemma classifyAll_func_keys:
  "classifyAll ext names (p, F, S) = Inr (p', F', S') \<Longrightarrow>
     p_pkg p' = p_pkg p \<and> fst ` set F \<subseteq> fst ` set F' \<and>
     (\<forall>k \<in> set names. \<forall>pk sig hp.
         scopeLookup (pkgScope (p_pkg p)) k = Some (TFunc pk k sig hp) \<and>
         Exported ext (TFunc pk k sig hp) \<longrightarrow> k \<in> fst ` set F')"
proof (induction names arbitrary: p F S)
  case Nil
  then show ?case by simp
next
  case (Cons name names)
  from Cons.prems obtain p1 F1 S1 where s: "classify ext name (p, F, S) = Inr (p1, F1, S1)"
    and r: "classifyAll ext names (p1, F1, S1) = Inr (p', F', S')"
    by (auto split: sum.splits)
  note a1 = classify_func_keys [OF s, THEN conjunct1]
    and a2 = classify_func_keys [OF s, THEN conjunct2, THEN conjunct1]
    and a3 = classify_func_keys [OF s, THEN conjunct2, THEN conjunct2]
    and b1 = Cons.IH [OF r, THEN conjunct1]
    and b2 = Cons.IH [OF r, THEN conjunct2, THEN conjunct1]
    and b3 = Cons.IH [OF r, THEN conjunct2, THEN conjunct2]
  have pk: "p_pkg p' = p_pkg p" by (simp only: a1 b1)
  have sub: "fst ` set F \<subseteq> fst ` set F'" using a2 b2 by (rule subset_trans)
  have "\<forall>k \<in> set (name # names). \<forall>pk sig hp.
         scopeLookup (pkgScope (p_pkg p)) k = Some (TFunc pk k sig hp) \<and>
         Exported ext (TFunc pk k sig hp) \<longrightarrow> k \<in> fst ` set F'"
  proof (intro ballI allI impI)
    fix k pk sig hp
    assume k: "k \<in> set (name # names)"
      and l: "scopeLookup (pkgScope (p_pkg p)) k = Some (TFunc pk k sig hp) \<and>
         Exported ext (TFunc pk k sig hp)"
    show "k \<in> fst ` set F'"
    proof (cases "k = name")
      case True
      with a3 l have "name \<in> fst ` set F1" by blast
      with b2 True show ?thesis by blast
    next
      case False
      with k have kn: "k \<in> set names" by simp
      from l have "scopeLookup (pkgScope (p_pkg p1)) k = Some (TFunc pk k sig hp) \<and>
         Exported ext (TFunc pk k sig hp)"
        by (simp only: a1)
      with b3 kn show ?thesis by blast
    qed
  qed
  with pk sub show ?case by (intro conjI)
qed

lemma package_anatomy:
  assumes "valid_schedule sch" and "NewPackage ext sch pkg doc = Inr p"
  obtains F S where "distinct (map fst F)" and "distinct (map fst S)"
    and "\<forall>kf \<in> set F. funcEntry ext doc (pkgScope pkg) (fst kf) (snd kf)"
    and "\<forall>ks \<in> set S. structEntry ext doc (pkgScope pkg) (fst ks) (snd ks)"
    and "\<forall>c \<in> set (p_consts p). constEntry ext doc (pkgScope pkg) c"
    and "\<forall>v \<in> set (p_vars p). varEntry ext doc (pkgScope pkg) v"
    and "\<forall>k \<in> dom (p_syms p). exportedName ext (pkgScope pkg) k"
    and "p_structs p = structModels ext sch doc (pkgScope pkg) S (structsOrder sch (map fst S)) F"
    and "mset (p_funcs p) = mset (map snd (remaining S (structsOrder sch (map fst S)) F))"
    and "p_objs p = map_of (rev (map structObj (p_structs p)))
                      ++ map_of (rev (map funcObj (p_funcs p)))"
    and "\<forall>k \<in> set (scopeNames (pkgScope pkg)). \<forall>pk sig hp.
           scopeLookup (pkgScope pkg) k = Some (TFunc pk k sig hp) \<and>
           Exported ext (TFunc pk k sig hp) \<longrightarrow> k \<in> fst ` set F"
proof -
  let ?p0 = "\<lparr>p_pkg = pkg, p_doc = doc, p_syms = newSymtab, p_objs = Map.empty,
        p_consts = [], p_vars = [], p_structs = [], p_funcs = []\<rparr>"
  from assms obtain p1 F S where
    w: "walked ext ?p0 (p1, F, S)"
    and same: "p_consts p = p_consts p1" "p_vars p = p_vars p1" "p_syms p = p_syms p1"
    and st: "p_structs p =
        structModels ext sch doc (pkgScope pkg) S (structsOrder sch (map fst S)) F"
    and fs: "p_funcs p =
           funcModels (remaining S (structsOrder sch (map fst S)) F)
             (restOrder sch (map fst (remaining S (structsOrder sch (map fst S)) F)))"
    and objs: "p_objs p = map_of (rev (map structObj (p_structs p)))
                      ++ map_of (rev (map funcObj (p_funcs p)))"
    and c: "classifyAll ext (scopeNames (pkgScope pkg)) (?p0, [], []) = Inr (p1, F, S)"
    by (rule NewPackage_closed)
  have dF: "distinct (map fst F)" using w by (simp add: walked_def)
  have "mset (restOrder sch (map fst (remaining S (structsOrder sch (map fst S)) F)))
      = mset (map fst (remaining S (structsOrder sch (map fst S)) F))"
    using assms(1) by (simp add: valid_schedule_def)
  with remaining_distinct [OF dF]
  have m: "mset (p_funcs p) = mset (map snd (remaining S (structsOrder sch (map fst S)) F))"
    unfolding fs by (rule funcModels_mset)
  show thesis
  proof (rule that [of F S])
    show "distinct (map fst F)" by (rule dF)
    show "distinct (map fst S)" using w by (simp add: walked_def)
    show "\<forall>kf \<in> set F. funcEntry ext doc (pkgScope pkg) (fst kf) (snd kf)"
      using w by (simp add: walked_def)
    show "\<forall>ks \<in> set S. structEntry ext doc (pkgScope pkg) (fst ks) (snd ks)"
      using w by (simp add: walked_def)
    show "\<forall>c \<in> set (p_consts p). constEntry ext doc (pkgScope pkg) c"
      using w same by (simp add: walked_def)
    show "\<forall>v \<in> set (p_vars p). varEntry ext doc (pkgScope pkg) v"
      using w same by (simp add: walked_def)
    show "\<forall>k \<in> dom (p_syms p). exportedName ext (pkgScope pkg) k"
      using w same by (simp add: walked_def)
    show "p_structs p =
        structModels ext sch doc (pkgScope pkg) S (structsOrder sch (map fst S)) F"
      by (rule st)
    show "mset (p_funcs p) = mset (map snd (remaining S (structsOrder sch (map fst S)) F))"
      by (rule m)
    show "p_objs p = map_of (rev (map structObj (p_structs p)))
                      ++ map_of (rev (map funcObj (p_funcs p)))"
      by (rule objs)
    show "\<forall>k \<in> set (scopeNames (pkgScope pkg)). \<forall>pk sig hp.
           scopeLookup (pkgScope pkg) k = Some (TFunc pk k sig hp) \<and>
           Exported ext (TFunc pk k sig hp) \<longrightarrow> k \<in> fst ` set F"
      using classifyAll_func_keys [OF c] by simp
  qed
qed

subsection \<open>Functions, constructors and structs of the completed package\<close>

lemma matches_structModel [simp]:
  "matches (structModel ext sch d scope F k s) f = matches s f"
  by (simp add: matches_def)

lemma package_struct:
  assumes "valid_schedule sch" and "NewPackage ext sch pkg doc = Inr p"
    and "s \<in> set (p_structs p)"
  obtains s0 where "structEntry ext doc (pkgScope pkg) (s_GoName s) s0"
    and "s_obj s = s_obj s0" and "s_id s = s_id s0" and "s_doc s = s_doc s0"
proof -
  from assms obtain k s0 F1 where "s_GoName s = k"
    and "structEntry ext doc (pkgScope pkg) k s0"
    and "s = structModel ext sch doc (pkgScope pkg) F1 k s0"
    by (rule struct_of_package)
  then have "structEntry ext doc (pkgScope pkg) (s_GoName s) s0"
    and "s_obj s = s_obj s0" and "s_id s = s_id s0" and "s_doc s = s_doc s0"
    by (simp_all add: structModel_def)
  then show thesis by (rule that)
qed

lemma package_func:
  assumes "valid_schedule sch" and "NewPackage ext sch pkg doc = Inr p"
    and "f \<in> set (p_funcs p)"
  shows "funcEntry ext doc (pkgScope pkg) (f_name f) f"
    and "\<forall>s \<in> set (p_structs p). \<not> matches s f"
proof -
  from assms(1,2) obtain F S where dF: "distinct (map fst F)"
    and eF: "\<forall>kf \<in> set F. funcEntry ext doc (pkgScope pkg) (fst kf) (snd kf)"
    and st: "p_structs p =
        structModels ext sch doc (pkgScope pkg) S (structsOrder sch (map fst S)) F"
    and fs: "mset (p_funcs p) = mset (map snd (remaining S (structsOrder sch (map fst S)) F))"
    by (rule package_anatomy)
  from fs have "set (p_funcs p) = snd ` set (remaining S (structsOrder sch (map fst S)) F)"
    by (metis mset_eq_setD set_map)
  with assms(3) obtain k where r: "(k, f) \<in> set (remaining S (structsOrder sch (map fst S)) F)"
    by force
  then have kf: "(k, f) \<in> set F"
    and nm: "\<forall>k' \<in> set (structsOrder sch (map fst S)). \<forall>s. map_of S k' = Some s \<longrightarrow> \<not> matches s f"
    unfolding remaining_mem by simp_all
  from eF kf have e: "funcEntry ext doc (pkgScope pkg) k f" by force
  then have "f_name f = k" by (simp add: funcEntry_fields)
  with e show "funcEntry ext doc (pkgScope pkg) (f_name f) f" by simp
  show "\<forall>s \<in> set (p_structs p). \<not> matches s f"
  proof
    fix s assume "s \<in> set (p_structs p)"
    then obtain k' s0 F1 where "k' \<in> set (structsOrder sch (map fst S))"
      and "map_of S k' = Some s0" and "s = structModel ext sch doc (pkgScope pkg) F1 k' s0"
      unfolding st by (auto dest!: structModels_mem)
    with nm show "\<not> matches s f" by simp
  qed
qed

lemma package_ctor:
  assumes "valid_schedule sch" and "NewPackage ext sch pkg doc = Inr p"
    and "s \<in> set (p_structs p)" and "c \<in> set (s_ctors s)"
  obtains f where "funcEntry ext doc (pkgScope pkg) (f_name c) f"
    and "matches s f"
    and "c = ctorOf ext doc (pkgScope pkg) (s_GoName s) (f_name c, f)"
    and "f_name c \<notin> f_name ` set (p_funcs p)"
proof -
  from assms(1,2) obtain F S where dF: "distinct (map fst F)"
    and eF: "\<forall>kf \<in> set F. funcEntry ext doc (pkgScope pkg) (fst kf) (snd kf)"
    and eS: "\<forall>ks \<in> set S. structEntry ext doc (pkgScope pkg) (fst ks) (snd ks)"
    and st: "p_structs p =
        structModels ext sch doc (pkgScope pkg) S (structsOrder sch (map fst S)) F"
    by (rule package_anatomy)
  from assms(3) [unfolded st] dF obtain k s0 F1 where
    k: "k \<in> set (structsOrder sch (map fst S))" and s0: "map_of S k = Some s0"
    and sub: "set F1 \<subseteq> set F" and s: "s = structModel ext sch doc (pkgScope pkg) F1 k s0"
    by (auto dest!: structModels_origin)
  from s0 have "(k, s0) \<in> set S" by (rule map_of_SomeD)
  with eS have e0: "structEntry ext doc (pkgScope pkg) k s0" by force
  then have z: "s_ctors s0 = []" and n: "s_GoName s0 = k"
    by (simp_all add: structEntry_fields)
  from assms(4) [unfolded s] z obtain kf where kf: "kf \<in> set F1"
    and m: "matches s0 (snd kf)" and c: "c = ctorOf ext doc (pkgScope pkg) k kf"
    by (rule structModel_ctor)
  from kf sub have kfF: "kf \<in> set F" by blast
  with eF have e: "funcEntry ext doc (pkgScope pkg) (fst kf) (snd kf)" by blast
  then have nm: "f_name (snd kf) = fst kf" by (simp add: funcEntry_fields)
  have cn: "f_name c = fst kf" by (simp add: c nm)
  have notin: "f_name c \<notin> f_name ` set (p_funcs p)"
  proof
    assume "f_name c \<in> f_name ` set (p_funcs p)"
    then obtain f where f: "f \<in> set (p_funcs p)" and fn: "f_name f = fst kf"
      unfolding cn by force
    from package_func(1) [OF assms(1,2) f] have "funcEntry ext doc (pkgScope pkg) (fst kf) f"
      by (simp only: fn)
    with e have "f = snd kf"
      by (auto simp: funcEntry_def)
    moreover from package_func(2) [OF assms(1,2) f] assms(3) have "\<not> matches s f" by blast
    ultimately show False using m s by simp
  qed
  show thesis
  proof (rule that [of "snd kf"])
    show "funcEntry ext doc (pkgScope pkg) (f_name c) (snd kf)"
      using e by (simp only: cn)
    show "matches s (snd kf)" using m s by simp
    have "(f_name c, snd kf) = kf" by (simp add: cn)
    then show "c = ctorOf ext doc (pkgScope pkg) (s_GoName s) (f_name c, snd kf)"
      using c by (simp add: s n)
    show "f_name c \<notin> f_name ` set (p_funcs p)" by (rule notin)
  qed
qed

section \<open>The lookup table and the unexported declarations\<close>

text \<open>Every name in the collections of the package is the name of an exported
  object of the scope, of the kind of the collection.\<close>

lemma package_struct_name:
  assumes "valid_schedule sch" and "NewPackage ext sch pkg doc = Inr p"
    and "s \<in> set (p_structs p)"
  shows "\<exists>pk t u. scopeLookup (pkgScope pkg) (s_GoName s) = Some (TTypeName pk (s_GoName s) t u)
           \<and> s_obj s = TTypeName pk (s_GoName s) t u \<and> Exported ext (s_obj s)"
proof -
  from assms obtain s0 where e: "structEntry ext doc (pkgScope pkg) (s_GoName s) s0"
    and o: "s_obj s = s_obj s0"
    by (rule package_struct)
  from structEntry_fields [OF e] o show ?thesis by auto
qed

lemma package_func_name:
  assumes "valid_schedule sch" and "NewPackage ext sch pkg doc = Inr p"
    and "f \<in> set (p_funcs p)"
  shows "\<exists>pk sig hp. scopeLookup (pkgScope pkg) (f_name f) = Some (TFunc pk (f_name f) sig hp)
           \<and> Exported ext (TFunc pk (f_name f) sig hp)"
    and "f_ctor f = False"
  using funcEntry_fields [OF package_func(1) [OF assms]] by auto

lemma package_ctor_name:
  assumes "valid_schedule sch" and "NewPackage ext sch pkg doc = Inr p"
    and "s \<in> set (p_structs p)" and "c \<in> set (s_ctors s)"
  shows "\<exists>pk sig hp. scopeLookup (pkgScope pkg) (f_name c) = Some (TFunc pk (f_name c) sig hp)
           \<and> Exported ext (TFunc pk (f_name c) sig hp)"
proof -
  from assms obtain f where "funcEntry ext doc (pkgScope pkg) (f_name c) f"
    by (rule package_ctor)
  from funcEntry_fields [OF this] show ?thesis by auto
qed

lemma package_objs_dom:
  assumes "valid_schedule sch" and "NewPackage ext sch pkg doc = Inr p"
  shows "dom (p_objs p) = s_GoName ` set (p_structs p) \<union> f_GoName ` set (p_funcs p)"
proof -
  from assms obtain F S where
    "p_objs p = map_of (rev (map structObj (p_structs p)))
                      ++ map_of (rev (map funcObj (p_funcs p)))"
    by (rule package_anatomy)
  then have "dom (p_objs p) = fst ` set (map structObj (p_structs p))
      \<union> fst ` set (map funcObj (p_funcs p))"
    by (simp only: dom_map_add dom_map_of_conv_image_fst set_rev Un_commute)
  then show ?thesis
    by (simp add: image_image structObj_def funcObj_def)
qed

lemma package_objs_value:
  assumes "valid_schedule sch" and "NewPackage ext sch pkg doc = Inr p"
    and "p_objs p k = Some v"
  shows "(\<exists>s \<in> set (p_structs p). v = OStruct s \<and> s_GoName s = k) \<or>
         (\<exists>f \<in> set (p_funcs p). v = OFunc f \<and> f_GoName f = k)"
proof -
  from assms(1,2) obtain F S where
    "p_objs p = map_of (rev (map structObj (p_structs p)))
                      ++ map_of (rev (map funcObj (p_funcs p)))"
    by (rule package_anatomy)
  with assms(3) have "map_of (rev (map funcObj (p_funcs p))) k = Some v \<or>
      map_of (rev (map structObj (p_structs p))) k = Some v"
    by (auto simp: map_add_Some_iff)
  then show ?thesis
  proof
    assume "map_of (rev (map funcObj (p_funcs p))) k = Some v"
    then have "(k, v) \<in> set (map funcObj (p_funcs p))"
      by (auto dest: map_of_SomeD)
    then show ?thesis by (auto simp: funcObj_def)
  next
    assume "map_of (rev (map structObj (p_structs p))) k = Some v"
    then have "(k, v) \<in> set (map structObj (p_structs p))"
      by (auto dest: map_of_SomeD)
    then show ?thesis by (auto simp: structObj_def)
  qed
qed

text \<open>
  C10. In the completed package, \<open>Lookup\<close> finds a model for an object exactly
  when the object's name is the name of a struct of the package or of a
  function left in its function list; what it finds is that struct, or that
  function (which is no constructor). The table holds only these structs and
  functions, so no constant, variable, constructor or method is stored in
  it, and a lookup by the name of a constant, of a variable or of a
  constructor of some struct fails.
\<close>

theorem Lookup_structs_and_funcs:
  assumes "valid_schedule sch" and "NewPackage ext sch pkg doc = Inr p"
  shows "((\<exists>v. Lookup p obj = Some v) \<longleftrightarrow>
            objName obj \<in> s_GoName ` set (p_structs p) \<union> f_GoName ` set (p_funcs p)) \<and>
         (\<forall>v. Lookup p obj = Some v \<longrightarrow>
            (\<exists>s \<in> set (p_structs p). v = OStruct s \<and> s_GoName s = objName obj) \<or>
            (\<exists>f \<in> set (p_funcs p). v = OFunc f \<and> f_GoName f = objName obj \<and> \<not> f_ctor f)) \<and>
         (\<forall>c \<in> set (p_consts p). objName obj = objName (c_obj c) \<longrightarrow> Lookup p obj = None) \<and>
         (\<forall>v \<in> set (p_vars p). objName obj = var_name v \<longrightarrow> Lookup p obj = None) \<and>
         (\<forall>s \<in> set (p_structs p). \<forall>c \<in> set (s_ctors s).
            objName obj = f_GoName c \<longrightarrow> Lookup p obj = None)"
proof (intro conjI allI ballI impI)
  note dom = package_objs_dom [OF assms]
  show "(\<exists>v. Lookup p obj = Some v) \<longleftrightarrow>
            objName obj \<in> s_GoName ` set (p_structs p) \<union> f_GoName ` set (p_funcs p)"
    unfolding dom [symmetric] Lookup_def by blast
  have kinds: "(\<exists>pk sig hp. scopeLookup (pkgScope pkg) k = Some (TFunc pk k sig hp)) \<or>
      (\<exists>pk t u. scopeLookup (pkgScope pkg) k = Some (TTypeName pk k t u))"
    if "k \<in> dom (p_objs p)" for k
  proof -
    from that consider s where "s \<in> set (p_structs p)" "k = s_GoName s"
      | f where "f \<in> set (p_funcs p)" "k = f_name f"
      unfolding dom by (auto simp: f_GoName_def)
    then show ?thesis
    proof cases
      case 1
      with package_struct_name [OF assms 1(1)] show ?thesis by blast
    next
      case 2
      with package_func_name(1) [OF assms 2(1)] show ?thesis by blast
    qed
  qed
  {
    fix v assume "Lookup p obj = Some v"
    then have "p_objs p (objName obj) = Some v" by (simp add: Lookup_def)
    from package_objs_value [OF assms this] package_func_name(2) [OF assms]
    show "(\<exists>s \<in> set (p_structs p). v = OStruct s \<and> s_GoName s = objName obj) \<or>
            (\<exists>f \<in> set (p_funcs p). v = OFunc f \<and> f_GoName f = objName obj \<and> \<not> f_ctor f)"
      by blast
  }
  {
    fix c assume c: "c \<in> set (p_consts p)" and n: "objName obj = objName (c_obj c)"
    from assms obtain F S where "\<forall>c \<in> set (p_consts p). constEntry ext doc (pkgScope pkg) c"
      by (rule package_anatomy)
    with c have "constEntry ext doc (pkgScope pkg) c" by blast
    from constEntry_fields [OF this]
    obtain pk t where "scopeLookup (pkgScope pkg) (objName obj) = Some (TConst pk (objName obj) t)"
      unfolding n by force
    with kinds [of "objName obj"] have "objName obj \<notin> dom (p_objs p)" by force
    then show "Lookup p obj = None" by (auto simp: Lookup_def)
  }
  {
    fix v assume v: "v \<in> set (p_vars p)" and n: "objName obj = var_name v"
    from assms obtain F S where "\<forall>v \<in> set (p_vars p). varEntry ext doc (pkgScope pkg) v"
      by (rule package_anatomy)
    with v have "varEntry ext doc (pkgScope pkg) v" by blast
    from varEntry_fields [OF this]
    obtain pk t where "scopeLookup (pkgScope pkg) (objName obj) = Some (TVar pk (objName obj) t)"
      unfolding n by force
    with kinds [of "objName obj"] have "objName obj \<notin> dom (p_objs p)" by force
    then show "Lookup p obj = None" by (auto simp: Lookup_def)
  }
  {
    fix s c assume s: "s \<in> set (p_structs p)" and c: "c \<in> set (s_ctors s)"
      and n: "objName obj = f_GoName c"
    from assms s c obtain f where "f_name c \<notin> f_name ` set (p_funcs p)"
      by (rule package_ctor)
    then have nf: "objName obj \<notin> f_GoName ` set (p_funcs p)"
      unfolding n by (auto simp: f_GoName_def)
    from package_ctor_name [OF assms s c]
    obtain pk sig hp where l: "scopeLookup (pkgScope pkg) (objName obj)
        = Some (TFunc pk (objName obj) sig hp)"
      unfolding n f_GoName_def by blast
    have "objName obj \<notin> s_GoName ` set (p_structs p)"
    proof
      assume "objName obj \<in> s_GoName ` set (p_structs p)"
      then obtain s' where "s' \<in> set (p_structs p)" "objName obj = s_GoName s'" by blast
      with package_struct_name [OF assms this(1)] l show False by force
    qed
    with nf have "objName obj \<notin> dom (p_objs p)" by (simp add: dom)
    then show "Lookup p obj = None" by (auto simp: Lookup_def)
  }
qed

theorem Lookup_structs_and_funcs_witness:
  "\<exists>p. NewPackage geo_ext sched_id geo_pkg geo_doc = Inr p \<and>
     map s_GoName (p_structs p) = [''Point''] \<and> map f_GoName (p_funcs p) = [''Dist''] \<and>
     (\<exists>v. Lookup p obj_Point = Some v) \<and>
     (\<exists>v. Lookup p (topFunc ''geo'' ''Dist'' sig_Dist) = Some v) \<and>
     Lookup p (topFunc ''geo'' ''NewPoint'' sig_NewPoint) = None \<and>
     Lookup p (TConst (Some ''geo'') ''Dim'' tInt) = None \<and>
     Lookup p (TFunc (Some ''geo'') ''String'' sig_String False) = None"
proof -
  have "\<exists>p s. NewPackage geo_ext sched_id geo_pkg geo_doc = Inr p \<and> p_structs p = [s] \<and>
     map s_GoName (p_structs p) = [''Point''] \<and> map f_GoName (p_funcs p) = [''Dist''] \<and>
     map f_GoName (s_ctors s) = [''NewPoint''] \<and>
     map (\<lambda>c. objName (c_obj c)) (p_consts p) = [''Dim'']"
    by (simp add: model_defs builder_defs ex_defs geo_defs Let_def)
  then obtain p s where run: "NewPackage geo_ext sched_id geo_pkg geo_doc = Inr p"
    and s: "p_structs p = [s]" and sn: "map s_GoName (p_structs p) = [''Point'']"
    and fn: "map f_GoName (p_funcs p) = [''Dist'']"
    and cn: "map f_GoName (s_ctors s) = [''NewPoint'']"
    and kn: "map (\<lambda>c. objName (c_obj c)) (p_consts p) = [''Dim'']"
    by (elim exE conjE)
  note L = Lookup_structs_and_funcs [OF valid_sched_id run]
  have names: "s_GoName ` set (p_structs p) \<union> f_GoName ` set (p_funcs p) = {''Point'', ''Dist''}"
    using sn fn by (metis (no_types) Un_insert_left Un_empty_left insert_is_Un
        list.set(1) list.set(2) set_map)
  have A: "\<exists>v. Lookup p obj_Point = Some v"
    using L [of obj_Point, THEN conjunct1] names by (simp add: obj_Point_def)
  have B: "\<exists>v. Lookup p (topFunc ''geo'' ''Dist'' sig_Dist) = Some v"
    using L [of "topFunc ''geo'' ''Dist'' sig_Dist", THEN conjunct1] names
    by (simp add: topFunc_def)
  have C: "Lookup p (topFunc ''geo'' ''NewPoint'' sig_NewPoint) = None"
    using L [of "topFunc ''geo'' ''NewPoint'' sig_NewPoint", THEN conjunct1] names
    by (simp add: topFunc_def)
  have D: "Lookup p (TConst (Some ''geo'') ''Dim'' tInt) = None"
    using L [of "TConst (Some ''geo'') ''Dim'' tInt", THEN conjunct1] names by simp
  have E: "Lookup p (TFunc (Some ''geo'') ''String'' sig_String False) = None"
    using L [of "TFunc (Some ''geo'') ''String'' sig_String False", THEN conjunct1] names by simp
  show ?thesis
    by (rule exI [of _ p]) (simp only: run sn fn A B C D E simp_thms)
qed

text \<open>
  C9. An unexported object of the scope is ignored by the analysis: in the
  completed package its name is not registered in the symbol table, and no
  constant, variable, function, struct or constructor of the package has its
  name or is built of it. (The names of a scope are distinct.)
\<close>

theorem unexported_ignored:
  assumes "valid_schedule sch" and "NewPackage ext sch pkg doc = Inr p"
    and "distinct (scopeNames (pkgScope pkg))"
    and "obj \<in> set (pkgScope pkg)" and "\<not> Exported ext obj"
  shows "p_syms p (objName obj) = None \<and>
         (\<forall>c \<in> set (p_consts p). objName (c_obj c) \<noteq> objName obj \<and> c_obj c \<noteq> obj) \<and>
         (\<forall>v \<in> set (p_vars p). var_name v \<noteq> objName obj) \<and>
         (\<forall>f \<in> set (p_funcs p). f_GoName f \<noteq> objName obj) \<and>
         (\<forall>s \<in> set (p_structs p). s_GoName s \<noteq> objName obj \<and> s_obj s \<noteq> obj \<and>
            (\<forall>c \<in> set (s_ctors s). f_GoName c \<noteq> objName obj))"
proof -
  have l: "scopeLookup (pkgScope pkg) (objName obj) = Some obj"
    using assms(3,4) by (rule scopeLookup_distinct)
  have no: "k \<noteq> objName obj"
    if "scopeLookup (pkgScope pkg) k = Some o'" and "Exported ext o'" for k o'
    using that l assms(5) by auto
  from assms(1,2) obtain F S where
    eC: "\<forall>c \<in> set (p_consts p). constEntry ext doc (pkgScope pkg) c"
    and eV: "\<forall>v \<in> set (p_vars p). varEntry ext doc (pkgScope pkg) v"
    and eY: "\<forall>k \<in> dom (p_syms p). exportedName ext (pkgScope pkg) k"
    by (rule package_anatomy)
  have "objName obj \<notin> dom (p_syms p)"
  proof
    assume "objName obj \<in> dom (p_syms p)"
    with eY have "exportedName ext (pkgScope pkg) (objName obj)" by blast
    with l assms(5) show False by (simp add: exportedName_def)
  qed
  then have yfact: "p_syms p (objName obj) = None" by blast
  have cfact: "\<forall>c \<in> set (p_consts p). objName (c_obj c) \<noteq> objName obj \<and> c_obj c \<noteq> obj"
  proof
    fix c assume "c \<in> set (p_consts p)"
    with eC have "constEntry ext doc (pkgScope pkg) c" by blast
    from constEntry_fields [OF this] no [of "objName (c_obj c)" "c_obj c"]
    have "objName (c_obj c) \<noteq> objName obj"
      by blast
    then show "objName (c_obj c) \<noteq> objName obj \<and> c_obj c \<noteq> obj" by auto
  qed
  have vfact: "\<forall>v \<in> set (p_vars p). var_name v \<noteq> objName obj"
  proof
    fix v assume "v \<in> set (p_vars p)"
    with eV have "varEntry ext doc (pkgScope pkg) v" by blast
    from varEntry_fields [OF this] no show "var_name v \<noteq> objName obj"
      by blast
  qed
  have ffact: "\<forall>f \<in> set (p_funcs p). f_GoName f \<noteq> objName obj"
  proof
    fix f assume "f \<in> set (p_funcs p)"
    from package_func_name(1) [OF assms(1,2) this] no show "f_GoName f \<noteq> objName obj"
      unfolding f_GoName_def by blast
  qed
  have sfact: "\<forall>s \<in> set (p_structs p). s_GoName s \<noteq> objName obj \<and> s_obj s \<noteq> obj \<and>
            (\<forall>c \<in> set (s_ctors s). f_GoName c \<noteq> objName obj)"
  proof (intro ballI conjI)
    fix s assume s: "s \<in> set (p_structs p)"
    from package_struct_name [OF assms(1,2) s] no [of "s_GoName s" "s_obj s"]
    show n: "s_GoName s \<noteq> objName obj"
      by force
    then show "s_obj s \<noteq> obj" by (auto simp: s_GoName_def)
    fix c assume "c \<in> set (s_ctors s)"
    from package_ctor_name [OF assms(1,2) s this] no show "f_GoName c \<noteq> objName obj"
      unfolding f_GoName_def by blast
  qed
  from yfact cfact vfact ffact sfact show ?thesis by (intro conjI)
qed

theorem unexported_ignored_witness:
  "\<exists>p. NewPackage geo_ext sched_id geo_pkg geo_doc = Inr p \<and>
     topFunc ''geo'' ''origin'' sig_NewPoint \<in> set (pkgScope geo_pkg) \<and>
     \<not> Exported geo_ext (topFunc ''geo'' ''origin'' sig_NewPoint) \<and>
     p_syms p ''origin'' = None \<and>
     ''origin'' \<notin> f_GoName ` set (p_funcs p) \<and>
     ''origin'' \<notin> s_GoName ` set (p_structs p)"
proof -
  from geo_run obtain p where run: "NewPackage geo_ext sched_id geo_pkg geo_doc = Inr p"
    by (elim exE conjE)
  have d: "distinct (scopeNames (pkgScope geo_pkg))"
    by (simp add: scopeNames_def geo_defs topFunc_def)
  have m: "topFunc ''geo'' ''origin'' sig_NewPoint \<in> set (pkgScope geo_pkg)"
    by (simp add: geo_defs topFunc_def)
  have u: "\<not> Exported geo_ext (topFunc ''geo'' ''origin'' sig_NewPoint)"
    by (simp add: geo_defs ex_ext_def topFunc_def)
  note U = unexported_ignored [OF valid_sched_id run d m u]
  have n: "objName (topFunc ''geo'' ''origin'' sig_NewPoint) = ''origin''"
    by (simp add: topFunc_def)
  from U have A: "p_syms p ''origin'' = None" unfolding n by (rule conjunct1)
  from U [THEN conjunct2, THEN conjunct2, THEN conjunct2, THEN conjunct1]
  have B: "''origin'' \<notin> f_GoName ` set (p_funcs p)" unfolding n by auto
  from U [THEN conjunct2, THEN conjunct2, THEN conjunct2, THEN conjunct2]
  have C: "''origin'' \<notin> s_GoName ` set (p_structs p)" unfolding n by auto
  show ?thesis
    by (rule exI [of _ p]) (simp only: run m u A B C simp_thms)
qed

section \<open>Constructors\<close>

lemma getDoc_TFunc_Inr: "\<exists>doc. getDoc ext d parent (TFunc pk n sig hp) = Inr doc"
  by (simp add: Let_def)

lemma funcEntry_unique:
  "funcEntry ext d scope k f \<Longrightarrow> funcEntry ext d scope k f' \<Longrightarrow> f = f'"
  by (auto simp: funcEntry_def)

lemma funcEntry_ctorOf:
  assumes "funcEntry ext d scope k f"
  shows "\<exists>pk sig hp doc. scopeLookup scope k = Some (TFunc pk k sig hp) \<and>
           getDoc ext d sname (TFunc pk k sig hp) = Inr doc \<and>
           ctorOf ext d scope sname (k, f) = f\<lparr>f_doc := doc, f_ctor := True\<rparr>"
proof -
  from assms obtain pk sig hp where l: "scopeLookup scope k = Some (TFunc pk k sig hp)"
    by (auto simp: funcEntry_def)
  obtain doc where g: "getDoc ext d sname (TFunc pk k sig hp) = Inr doc"
    using getDoc_TFunc_Inr by blast
  have "ctorOf ext d scope sname (k, f) = f\<lparr>f_doc := doc, f_ctor := True\<rparr>"
    by (simp add: ctorOf_def ctorDoc_def l g del: getDoc.simps)
  with l g show ?thesis by blast
qed

text \<open>The functions of the function list and the constructors of the structs
  are together the functions the walk collected, each once.\<close>

lemma package_partition:
  assumes "valid_schedule sch" and "NewPackage ext sch pkg doc = Inr p"
    and g: "\<And>sname kf. g (ctorOf ext doc (pkgScope pkg) sname kf) = g (snd kf)"
  obtains F where "distinct (map fst F)"
    and "\<forall>kf \<in> set F. funcEntry ext doc (pkgScope pkg) (fst kf) (snd kf)"
    and "\<forall>k \<in> set (scopeNames (pkgScope pkg)). \<forall>pk sig hp.
           scopeLookup (pkgScope pkg) k = Some (TFunc pk k sig hp) \<and>
           Exported ext (TFunc pk k sig hp) \<longrightarrow> k \<in> fst ` set F"
    and "mset (map g (p_funcs p)) + mset (concat (map (\<lambda>s. map g (s_ctors s)) (p_structs p)))
           = mset (map (\<lambda>kf. g (snd kf)) F)"
proof -
  from assms(1,2) obtain F S where dF: "distinct (map fst F)"
    and eF: "\<forall>kf \<in> set F. funcEntry ext doc (pkgScope pkg) (fst kf) (snd kf)"
    and eS: "\<forall>ks \<in> set S. structEntry ext doc (pkgScope pkg) (fst ks) (snd ks)"
    and st: "p_structs p =
        structModels ext sch doc (pkgScope pkg) S (structsOrder sch (map fst S)) F"
    and fs: "mset (p_funcs p) = mset (map snd (remaining S (structsOrder sch (map fst S)) F))"
    and co: "\<forall>k \<in> set (scopeNames (pkgScope pkg)). \<forall>pk sig hp.
           scopeLookup (pkgScope pkg) k = Some (TFunc pk k sig hp) \<and>
           Exported ext (TFunc pk k sig hp) \<longrightarrow> k \<in> fst ` set F"
    by (rule package_anatomy)
  have empty: "\<forall>ks \<in> set S. s_ctors (snd ks) = []"
    using eS structEntry_fields by blast
  have "mset (map g (p_funcs p)) = image_mset g (mset (p_funcs p))" by simp
  also have "\<dots> = image_mset g (mset (map snd (remaining S (structsOrder sch (map fst S)) F)))"
    by (simp only: fs)
  also have "\<dots> = mset (map (\<lambda>kf. g (snd kf)) (remaining S (structsOrder sch (map fst S)) F))"
    by (simp add: image_mset.compositionality comp_def)
  finally have "mset (map g (p_funcs p)) +
      mset (concat (map (\<lambda>s. map g (s_ctors s)) (p_structs p)))
      = mset (map (\<lambda>kf. g (snd kf)) F)"
    unfolding st using funcs_partition [OF assms(1) g empty dF] by simp
  with dF eF co show thesis by (rule that)
qed

text \<open>
  C3. Take an exported function of the scope whose model has a return type,
  and a struct \<open>T\<close> of the completed package of that type. Then the function
  is not in the function list of the package; its name occurs once in all
  the constructor lists of the structs together, so one struct has it, once;
  the constructor of that name, in whichever struct \<open>s\<close> it is, is the
  function's model with the constructor flag set and the documentation
  \<open>getDoc\<close> gives with \<open>s\<close> as the enclosing type, and \<open>s\<close> has the function's
  return type. No name occurs twice in the constructor lists: no function is
  a constructor of two structs.
\<close>

theorem constructors_reclassified:
  assumes "valid_schedule sch" and "NewPackage ext sch pkg doc = Inr p"
    and "scopeLookup (pkgScope pkg) n = Some (TFunc pk n sig hp)"
    and "Exported ext (TFunc pk n sig hp)"
    and "newFuncFrom ext doc '''' (TFunc pk n sig hp) sig = Inr f"
    and "T \<in> set (p_structs p)" and "f_Return f = Some t" and "s_GoType T = Some t"
  shows "n \<notin> f_GoName ` set (p_funcs p) \<and>
         count_list (concat (map (\<lambda>s. map f_GoName (s_ctors s)) (p_structs p))) n = 1 \<and>
         (\<forall>s \<in> set (p_structs p). \<forall>c \<in> set (s_ctors s). f_GoName c = n \<longrightarrow>
            s_GoType s = Some t \<and> f_ctor c \<and>
            (\<exists>d. getDoc ext doc (s_GoName s) (TFunc pk n sig hp) = Inr d \<and>
                 c = f\<lparr>f_doc := d, f_ctor := True\<rparr>)) \<and>
         distinct (concat (map (\<lambda>s. map f_GoName (s_ctors s)) (p_structs p)))"
proof -
  have e: "funcEntry ext doc (pkgScope pkg) n f"
    unfolding funcEntry_def using assms(3-5) by blast
  have mT: "matches T f"
    using assms(7,8) by (simp add: matches_def)
  have absent: "n \<notin> f_GoName ` set (p_funcs p)"
  proof
    assume "n \<in> f_GoName ` set (p_funcs p)"
    then obtain f' where f': "f' \<in> set (p_funcs p)" and n: "f_name f' = n"
      by (auto simp: f_GoName_def)
    from package_func(1) [OF assms(1,2) f'] have "funcEntry ext doc (pkgScope pkg) n f'"
      by (simp only: n)
    with e have "f = f'" by (rule funcEntry_unique)
    with package_func(2) [OF assms(1,2) f'] assms(6) mT show False by blast
  qed
  from assms(1,2) obtain F where dF: "distinct (map fst F)"
    and eF: "\<forall>kf \<in> set F. funcEntry ext doc (pkgScope pkg) (fst kf) (snd kf)"
    and co: "\<forall>k \<in> set (scopeNames (pkgScope pkg)). \<forall>pk sig hp.
           scopeLookup (pkgScope pkg) k = Some (TFunc pk k sig hp) \<and>
           Exported ext (TFunc pk k sig hp) \<longrightarrow> k \<in> fst ` set F"
    and part: "mset (map f_name (p_funcs p)) +
        mset (concat (map (\<lambda>s. map f_name (s_ctors s)) (p_structs p)))
           = mset (map (\<lambda>kf. f_name (snd kf)) F)"
    by (rule package_partition [where g = f_name]) simp
  have names: "map (\<lambda>kf. f_name (snd kf)) F = map fst F"
  proof (intro map_cong refl)
    fix kf assume "kf \<in> set F"
    with eF have "funcEntry ext doc (pkgScope pkg) (fst kf) (snd kf)" by blast
    then show "f_name (snd kf) = fst kf" by (simp add: funcEntry_fields)
  qed
  have gn: "(\<lambda>s. map f_GoName (s_ctors s)) = (\<lambda>s. map f_name (s_ctors s))"
    by (simp add: f_GoName_def [abs_def])
  let ?C = "concat (map (\<lambda>s. map f_name (s_ctors s)) (p_structs p))"
  have part': "mset (map f_name (p_funcs p) @ ?C) = mset (map fst F)"
    using part by (simp only: names mset_append)
  have "n \<in> set (scopeNames (pkgScope pkg))"
    using scopeLookup_mem [OF assms(3)] by (force simp: scopeNames_def)
  with co assms(3,4) have "n \<in> set (map fst F)" by force
  with dF have "count (mset (map fst F)) n = 1"
    by (simp add: distinct_count_atmost_1)
  then have "count (mset (map f_name (p_funcs p))) n + count (mset ?C) n = 1"
    by (simp only: part' [symmetric] mset_append count_union)
  moreover have "count (mset (map f_name (p_funcs p))) n = 0"
    using absent by (simp add: count_eq_zero_iff f_GoName_def [abs_def])
  ultimately have once: "count_list ?C n = 1"
    by (simp add: count_mset)
  have "distinct (map f_name (p_funcs p) @ ?C)"
    using part' dF by (metis mset_eq_imp_distinct_iff)
  then have dist: "distinct ?C" by simp
  have ctor: "\<forall>s \<in> set (p_structs p). \<forall>c \<in> set (s_ctors s). f_GoName c = n \<longrightarrow>
            s_GoType s = Some t \<and> f_ctor c \<and>
            (\<exists>d. getDoc ext doc (s_GoName s) (TFunc pk n sig hp) = Inr d \<and>
                 c = f\<lparr>f_doc := d, f_ctor := True\<rparr>)"
  proof (intro ballI impI)
    fix s c assume s: "s \<in> set (p_structs p)" and c: "c \<in> set (s_ctors s)"
      and cn: "f_GoName c = n"
    from assms(1,2) s c obtain f' where e': "funcEntry ext doc (pkgScope pkg) (f_name c) f'"
      and m: "matches s f'"
      and ceq: "c = ctorOf ext doc (pkgScope pkg) (s_GoName s) (f_name c, f')"
      by (rule package_ctor)
    from cn have cn': "f_name c = n" by (simp add: f_GoName_def)
    from e e' have ff: "f' = f" unfolding cn' by (rule funcEntry_unique [symmetric])
    from funcEntry_ctorOf [OF e, of "s_GoName s"] assms(3)
    obtain d where "getDoc ext doc (s_GoName s) (TFunc pk n sig hp) = Inr d"
      and "ctorOf ext doc (pkgScope pkg) (s_GoName s) (n, f) = f\<lparr>f_doc := d, f_ctor := True\<rparr>"
      by auto
    moreover from m ff assms(7) have "s_GoType s = Some t"
      by (simp add: matches_def)
    ultimately show "s_GoType s = Some t \<and> f_ctor c \<and>
            (\<exists>d. getDoc ext doc (s_GoName s) (TFunc pk n sig hp) = Inr d \<and>
                 c = f\<lparr>f_doc := d, f_ctor := True\<rparr>)"
      using ceq unfolding cn' ff by auto
  qed
  from absent once dist ctor show ?thesis
    unfolding gn by (intro conjI)
qed

theorem constructors_reclassified_witness:
  "\<exists>p T f. NewPackage geo_ext sched_id geo_pkg geo_doc = Inr p \<and> T \<in> set (p_structs p) \<and>
     scopeLookup (pkgScope geo_pkg) ''NewPoint'' = Some (topFunc ''geo'' ''NewPoint'' sig_NewPoint) \<and>
     Exported geo_ext (topFunc ''geo'' ''NewPoint'' sig_NewPoint) \<and>
     newFuncFrom geo_ext geo_doc '''' (topFunc ''geo'' ''NewPoint'' sig_NewPoint) sig_NewPoint
       = Inr f \<and>
     f_Return f = Some tPoint \<and> s_GoType T = Some tPoint \<and>
     ''NewPoint'' \<notin> f_GoName ` set (p_funcs p) \<and>
     count_list (concat (map (\<lambda>s. map f_GoName (s_ctors s)) (p_structs p))) ''NewPoint'' = 1"
proof -
  from geo_run obtain p T where run: "NewPackage geo_ext sched_id geo_pkg geo_doc = Inr p"
    and s: "p_structs p = [T]" "s_obj T = obj_Point"
    by (elim exE conjE)
  from s have mem: "T \<in> set (p_structs p)" by simp
  have l: "scopeLookup (pkgScope geo_pkg) ''NewPoint''
             = Some (topFunc ''geo'' ''NewPoint'' sig_NewPoint)"
    by (simp add: scopeLookup_def geo_defs topFunc_def)
  have x: "Exported geo_ext (topFunc ''geo'' ''NewPoint'' sig_NewPoint)"
    by (simp add: geo_defs ex_ext_def topFunc_def)
  obtain f where f: "newFuncFrom geo_ext geo_doc '''' (topFunc ''geo'' ''NewPoint'' sig_NewPoint)
      sig_NewPoint = Inr f"
    by (simp add: builder_defs ex_defs geo_defs)
  from newFuncFrom_Inr_shape [OF f] have r: "f_Return f = Some tPoint"
    by (simp add: resultShape_def f_Return_def ex_defs geo_defs)
  have t: "s_GoType T = Some tPoint"
    by (simp add: s_GoType_def s obj_Point_def)
  note C = constructors_reclassified [OF valid_sched_id run l [unfolded topFunc_def]
      x [unfolded topFunc_def] f [unfolded topFunc_def] mem r t]
  from C have A: "''NewPoint'' \<notin> f_GoName ` set (p_funcs p)" by (rule conjunct1)
  from C have B: "count_list (concat (map (\<lambda>s. map f_GoName (s_ctors s)) (p_structs p)))
      ''NewPoint'' = 1"
    by (rule conjunct2 [THEN conjunct1])
  show ?thesis
    by (rule exI [of _ p], rule exI [of _ T], rule exI [of _ f])
      (simp only: run mem l x f r t A B simp_thms)
qed

section \<open>The order of the map iterations\<close>

lemma remaining_filter:
  "remaining S snames F =
     filter (\<lambda>kf. \<forall>k \<in> set snames. \<forall>s. map_of S k = Some s \<longrightarrow> \<not> matches s (snd kf)) F"
proof (induction snames arbitrary: F)
  case Nil
  then show ?case by simp
next
  case (Cons sname snames)
  show ?case
  proof (cases "map_of S sname")
    case None
    with Cons show ?thesis by simp
  next
    case (Some s)
    have "remaining S (sname # snames) F = remaining S snames (unclaimed s F)"
      using Some by simp
    also have "\<dots> = filter (\<lambda>kf. \<forall>k \<in> set snames. \<forall>s. map_of S k = Some s
                          \<longrightarrow> \<not> matches s (snd kf)) (unclaimed s F)"
      by (rule Cons.IH)
    also have "\<dots> = filter (\<lambda>kf. \<forall>k \<in> set (sname # snames). \<forall>s. map_of S k = Some s
                          \<longrightarrow> \<not> matches s (snd kf)) F"
      unfolding unclaimed_def filter_filter using Some
      by (intro filter_cong refl) auto
    finally show ?thesis .
  qed
qed

lemma structModels_names:
  assumes "\<forall>ks \<in> set S. s_GoName (snd ks) = fst ks"
  shows "map s_GoName (structModels ext sch d scope S snames F)
           = filter (\<lambda>k. map_of S k \<noteq> None) snames"
proof (induction snames arbitrary: F)
  case Nil
  then show ?case by simp
next
  case (Cons sname snames)
  show ?case
  proof (cases "map_of S sname")
    case None
    with Cons show ?thesis by simp
  next
    case (Some s)
    then have "(sname, s) \<in> set S" by (rule map_of_SomeD)
    with assms have "s_GoName s = sname" by force
    with Cons Some show ?thesis by simp
  qed
qed

lemma mset_map_filter:
  "mset (List.map_filter h xs) = image_mset (\<lambda>x. the (h x)) (filter_mset (\<lambda>x. h x \<noteq> None) (mset xs))"
  by (induction xs) (auto simp: List.map_filter_simps split: option.splits)

text \<open>When no two structs have the same type, the structs the loop adds are,
  up to the order of their constructors, those of \<open>canonStruct\<close>, whatever
  the schedule.\<close>

lemma structModels_canon:
  assumes valid: "valid_schedule sch"
    and types: "\<forall>k k' s s'. map_of S k = Some s \<and> map_of S k' = Some s' \<and>
                  s_GoType s = s_GoType s' \<longrightarrow> k = k'"
  shows "distinct (map fst G) \<Longrightarrow> distinct snames \<Longrightarrow>
     (\<forall>k \<in> set snames. \<forall>s. map_of S k = Some s \<longrightarrow>
        filter_mset (\<lambda>kf. matches s (snd kf)) (mset G)
          = filter_mset (\<lambda>kf. matches s (snd kf)) (mset F)) \<Longrightarrow>
     map structUpToOrder (structModels ext sch d scope S snames G)
       = List.map_filter (\<lambda>k. map_option (canonStruct ext d scope F k) (map_of S k)) snames"
proof (induction snames arbitrary: G)
  case Nil
  then show ?case by (simp add: List.map_filter_simps)
next
  case (Cons sname snames)
  from Cons.prems(2) have dn: "distinct snames" and notin: "sname \<notin> set snames" by simp_all
  show ?case
  proof (cases "map_of S sname")
    case None
    have "\<forall>k \<in> set snames. \<forall>s. map_of S k = Some s \<longrightarrow>
        filter_mset (\<lambda>kf. matches s (snd kf)) (mset G)
          = filter_mset (\<lambda>kf. matches s (snd kf)) (mset F)"
      using Cons.prems(3) by simp
    from Cons.IH [OF Cons.prems(1) dn this] None show ?thesis
      by (simp add: List.map_filter_simps)
  next
    case (Some s)
    let ?names = "funcsOrder sch sname (map fst G)"
    have perm: "mset ?names = mset (map fst G)"
      using valid by (simp add: valid_schedule_def)
    have same: "filter_mset (\<lambda>kf. matches s (snd kf)) (mset G)
          = filter_mset (\<lambda>kf. matches s (snd kf)) (mset F)"
      using Cons.prems(3) Some by simp
    have head: "structUpToOrder (structModel ext sch d scope G sname s)
        = canonStruct ext d scope F sname s"
      unfolding structUpToOrder_def canonStruct_def structModel_def
      by (simp add: claimed_mset [OF Cons.prems(1) perm] same)
    have tail: "\<forall>k \<in> set snames. \<forall>s'. map_of S k = Some s' \<longrightarrow>
        filter_mset (\<lambda>kf. matches s' (snd kf)) (mset (unclaimed s G))
          = filter_mset (\<lambda>kf. matches s' (snd kf)) (mset F)"
    proof (intro ballI allI impI)
      fix k s' assume k: "k \<in> set snames" and s': "map_of S k = Some s'"
      from k notin have "k \<noteq> sname" by blast
      with types Some s' have ne: "s_GoType s' \<noteq> s_GoType s" by blast
      have "\<And>kf. matches s' (snd kf) \<Longrightarrow> \<not> matches s (snd kf)"
        using ne by (auto simp: matches_def)
      then have "filter_mset (\<lambda>kf. matches s' (snd kf)) (mset (unclaimed s G))
          = filter_mset (\<lambda>kf. matches s' (snd kf)) (mset G)"
        unfolding unclaimed_def mset_filter filter_filter_mset
        by (intro filter_mset_cong refl) auto
      with Cons.prems(3) k s' show "filter_mset (\<lambda>kf. matches s' (snd kf)) (mset (unclaimed s G))
          = filter_mset (\<lambda>kf. matches s' (snd kf)) (mset F)"
        by simp
    qed
    from Cons.IH [OF unclaimed_distinct [OF Cons.prems(1)] dn tail] Some head show ?thesis
      by (simp add: List.map_filter_simps)
  qed
qed

lemma package_names_distinct:
  assumes "valid_schedule sch" and "NewPackage ext sch pkg doc = Inr p"
  shows "distinct (map f_GoName (p_funcs p) @ map s_GoName (p_structs p))"
proof -
  from assms obtain F S where dS: "distinct (map fst S)"
    and eS: "\<forall>ks \<in> set S. structEntry ext doc (pkgScope pkg) (fst ks) (snd ks)"
    and st: "p_structs p =
        structModels ext sch doc (pkgScope pkg) S (structsOrder sch (map fst S)) F"
    by (rule package_anatomy)
  have "mset (structsOrder sch (map fst S)) = mset (map fst S)"
    using assms(1) by (simp add: valid_schedule_def)
  with dS have dso: "distinct (structsOrder sch (map fst S))"
    by (metis mset_eq_imp_distinct_iff)
  have "\<forall>ks \<in> set S. s_GoName (snd ks) = fst ks"
    using eS structEntry_fields by blast
  then have "map s_GoName (p_structs p)
      = filter (\<lambda>k. map_of S k \<noteq> None) (structsOrder sch (map fst S))"
    unfolding st by (rule structModels_names)
  with dso have ds: "distinct (map s_GoName (p_structs p))" by simp
  from assms obtain F' where dF: "distinct (map fst F')"
    and eF: "\<forall>kf \<in> set F'. funcEntry ext doc (pkgScope pkg) (fst kf) (snd kf)"
    and part: "mset (map f_name (p_funcs p)) +
        mset (concat (map (\<lambda>s. map f_name (s_ctors s)) (p_structs p)))
           = mset (map (\<lambda>kf. f_name (snd kf)) F')"
    by (rule package_partition [where g = f_name]) simp
  have names: "map (\<lambda>kf. f_name (snd kf)) F' = map fst F'"
  proof (intro map_cong refl)
    fix kf assume "kf \<in> set F'"
    with eF have "funcEntry ext doc (pkgScope pkg) (fst kf) (snd kf)" by blast
    then show "f_name (snd kf) = fst kf" by (simp add: funcEntry_fields)
  qed
  have "mset (map f_name (p_funcs p) @
      concat (map (\<lambda>s. map f_name (s_ctors s)) (p_structs p))) = mset (map fst F')"
    using part by (simp only: names mset_append)
  with dF have "distinct (map f_name (p_funcs p) @
      concat (map (\<lambda>s. map f_name (s_ctors s)) (p_structs p)))"
    by (metis mset_eq_imp_distinct_iff)
  then have df: "distinct (map f_GoName (p_funcs p))"
    by (simp add: f_GoName_def [abs_def])
  have disj: "set (map f_GoName (p_funcs p)) \<inter> set (map s_GoName (p_structs p)) = {}"
  proof (rule ccontr)
    assume "set (map f_GoName (p_funcs p)) \<inter> set (map s_GoName (p_structs p)) \<noteq> {}"
    then obtain f s where f: "f \<in> set (p_funcs p)" and s: "s \<in> set (p_structs p)"
      and eq: "f_name f = s_GoName s"
      by (auto simp: f_GoName_def)
    from package_func_name(1) [OF assms f] package_struct_name [OF assms s] eq
    show False by force
  qed
  from df ds disj show ?thesis by simp
qed

text \<open>The package a completed run returns, in terms of what the walk over the
  scope collected: nothing in it depends on the schedule but the order of
  the lists.\<close>

lemma run_canon:
  assumes "valid_schedule sch" and "NewPackage ext sch pkg doc = Inr p"
    and c: "classifyAll ext (scopeNames (pkgScope pkg))
           (\<lparr>p_pkg = pkg, p_doc = doc, p_syms = newSymtab, p_objs = Map.empty,
              p_consts = [], p_vars = [], p_structs = [], p_funcs = []\<rparr>, [], [])
         = Inr (p1, F, S)"
    and types: "\<forall>o1 \<in> set (pkgScope pkg). \<forall>o2 \<in> set (pkgScope pkg).
        typeNameType o1 \<noteq> None \<and> typeNameType o1 = typeNameType o2 \<longrightarrow> objName o1 = objName o2"
  shows "p_consts p = p_consts p1" and "p_vars p = p_vars p1" and "p_syms p = p_syms p1"
    and "p_pkg p = pkg" and "p_doc p = doc"
    and "mset (p_funcs p) =
           mset (map snd (filter (\<lambda>kf. \<forall>k \<in> set (map fst S). \<forall>s. map_of S k = Some s
                                    \<longrightarrow> \<not> matches s (snd kf)) F))"
    and "image_mset structUpToOrder (mset (p_structs p)) =
           image_mset (\<lambda>k. the (map_option (canonStruct ext doc (pkgScope pkg) F k) (map_of S k)))
             (filter_mset (\<lambda>k. map_option (canonStruct ext doc (pkgScope pkg) F k) (map_of S k)
                               \<noteq> None) (mset (map fst S)))"
proof -
  let ?p0 = "\<lparr>p_pkg = pkg, p_doc = doc, p_syms = newSymtab, p_objs = Map.empty,
        p_consts = [], p_vars = [], p_structs = [], p_funcs = []\<rparr>"
  from assms(1,2) obtain p1' F' S' where
    w: "walked ext ?p0 (p1', F', S')"
    and same: "p_consts p = p_consts p1'" "p_vars p = p_vars p1'" "p_syms p = p_syms p1'"
      "p_pkg p = pkg" "p_doc p = doc"
    and st: "p_structs p =
        structModels ext sch doc (pkgScope pkg) S' (structsOrder sch (map fst S')) F'"
    and fs: "p_funcs p =
           funcModels (remaining S' (structsOrder sch (map fst S')) F')
             (restOrder sch (map fst (remaining S' (structsOrder sch (map fst S')) F')))"
    and c': "classifyAll ext (scopeNames (pkgScope pkg)) (?p0, [], []) = Inr (p1', F', S')"
    by (rule NewPackage_closed)
  from c c' have eq: "p1' = p1" "F' = F" "S' = S" by simp_all
  note w = w [unfolded eq] and same = same [unfolded eq] and st = st [unfolded eq]
    and fs = fs [unfolded eq]
  from same show "p_consts p = p_consts p1" "p_vars p = p_vars p1" "p_syms p = p_syms p1"
    "p_pkg p = pkg" "p_doc p = doc"
    by simp_all
  from w have dF: "distinct (map fst F)" and dS: "distinct (map fst S)"
    and eS: "\<forall>ks \<in> set S. structEntry ext doc (pkgScope pkg) (fst ks) (snd ks)"
    by (simp_all add: walked_def)
  let ?so = "structsOrder sch (map fst S)"
  have pso: "mset ?so = mset (map fst S)"
    using assms(1) by (simp add: valid_schedule_def)
  then have sso: "set ?so = set (map fst S)" by (rule mset_eq_setD)
  from pso dS have dso: "distinct ?so" by (metis mset_eq_imp_distinct_iff)
  have "mset (restOrder sch (map fst (remaining S ?so F))) = mset (map fst (remaining S ?so F))"
    using assms(1) by (simp add: valid_schedule_def)
  with remaining_distinct [OF dF]
  have "mset (p_funcs p) = mset (map snd (remaining S ?so F))"
    unfolding fs by (rule funcModels_mset)
  then show "mset (p_funcs p) =
           mset (map snd (filter (\<lambda>kf. \<forall>k \<in> set (map fst S). \<forall>s. map_of S k = Some s
                                    \<longrightarrow> \<not> matches s (snd kf)) F))"
    by (simp only: remaining_filter sso)
  have ty: "\<forall>k k' s s'. map_of S k = Some s \<and> map_of S k' = Some s' \<and>
                  s_GoType s = s_GoType s' \<longrightarrow> k = k'"
  proof (intro allI impI)
    fix k k' s s'
    assume a: "map_of S k = Some s \<and> map_of S k' = Some s' \<and> s_GoType s = s_GoType s'"
    then have "(k, s) \<in> set S" "(k', s') \<in> set S" by (auto dest: map_of_SomeD)
    with eS have e: "structEntry ext doc (pkgScope pkg) k s"
      and e': "structEntry ext doc (pkgScope pkg) k' s'"
      by force+
    from structEntry_fields [OF e] obtain pk pp nn where
      l: "scopeLookup (pkgScope pkg) k = Some (s_obj s)"
      and so: "s_obj s = TTypeName pk k (Named pp nn) StructU"
      by blast
    from structEntry_fields [OF e'] obtain pk' pp' nn' where
      l': "scopeLookup (pkgScope pkg) k' = Some (s_obj s')"
      and so': "s_obj s' = TTypeName pk' k' (Named pp' nn') StructU"
      by blast
    have o: "s_obj s \<in> set (pkgScope pkg)" "objName (s_obj s) = k"
      "typeNameType (s_obj s) \<noteq> None"
      using scopeLookup_mem [OF l] by (simp_all add: so)
    have o': "s_obj s' \<in> set (pkgScope pkg)" "objName (s_obj s') = k'"
      using scopeLookup_mem [OF l'] by (simp_all add: so')
    from a have "typeNameType (s_obj s) = typeNameType (s_obj s')"
      by (simp add: s_GoType_def)
    with types o o' show "k = k'" by blast
  qed
  have "map structUpToOrder (p_structs p)
      = List.map_filter (\<lambda>k. map_option (canonStruct ext doc (pkgScope pkg) F k) (map_of S k)) ?so"
    unfolding st using dF dso by (intro structModels_canon [OF assms(1) ty]) simp_all
  then have "image_mset structUpToOrder (mset (p_structs p))
      = mset (List.map_filter
          (\<lambda>k. map_option (canonStruct ext doc (pkgScope pkg) F k) (map_of S k)) ?so)"
    by (metis mset_map)
  then show "image_mset structUpToOrder (mset (p_structs p)) =
           image_mset (\<lambda>k. the (map_option (canonStruct ext doc (pkgScope pkg) F k) (map_of S k)))
             (filter_mset (\<lambda>k. map_option (canonStruct ext doc (pkgScope pkg) F k) (map_of S k)
                               \<noteq> None) (mset (map fst S)))"
    by (simp only: mset_map_filter pso)
qed

lemma package_objs_upto:
  assumes "valid_schedule sch" and "NewPackage ext sch pkg doc = Inr p"
  obtains E where "distinct (map fst E)"
    and "set E = (\<lambda>f. (f_GoName f, Inr f)) ` set (p_funcs p) \<union>
                 (\<lambda>n. (objName (s_obj (fst n)), Inl n)) ` structUpToOrder ` set (p_structs p)"
    and "\<forall>k. map_option objUpToOrder (p_objs p k) = map_of E k"
proof -
  let ?L = "rev (map funcObj (p_funcs p)) @ rev (map structObj (p_structs p))"
  let ?E = "map (\<lambda>(k, v). (k, objUpToOrder v)) ?L"
  from assms obtain F S where
    "p_objs p = map_of (rev (map structObj (p_structs p)))
                      ++ map_of (rev (map funcObj (p_funcs p)))"
    by (rule package_anatomy)
  then have objs: "p_objs p = map_of ?L"
    by (simp only: map_of_append)
  have keys: "map fst ?E = rev (map f_GoName (p_funcs p)) @ rev (map s_GoName (p_structs p))"
    by (simp add: funcObj_def structObj_def rev_map comp_def case_prod_beta)
  have "distinct (map f_GoName (p_funcs p) @ map s_GoName (p_structs p))"
    using assms by (rule package_names_distinct)
  then have d: "distinct (map fst ?E)"
    unfolding keys by auto
  have s: "set ?E = (\<lambda>f. (f_GoName f, Inr f)) ` set (p_funcs p) \<union>
                 (\<lambda>n. (objName (s_obj (fst n)), Inl n)) ` structUpToOrder ` set (p_structs p)"
    by (auto simp: funcObj_def structObj_def structUpToOrder_def s_GoName_def image_iff)
  have m: "\<forall>k. map_option objUpToOrder (p_objs p k) = map_of ?E k"
    by (simp only: objs map_of_map o_apply simp_thms)
  from d s m show thesis by (rule that)
qed

text \<open>
  C8, as the code has it. Two completed runs over the same module and
  documentation, under any two iteration orders of the maps, return packages
  with the same name, documentation tree, symbol table, constants and
  variables; with the same functions up to the order of the list; with the
  same structs up to the order of the list and up to the order of each
  struct's constructor list (identity, documentation, type, method list and
  capability mask are the same, and so is the set of constructors of each
  struct); and with lookup tables that hold the same entries, up to the
  order of constructors. (Each type name of the scope has its own type, as
  go/types makes them.)
\<close>

theorem runs_agree_up_to_order:
  assumes "valid_schedule sch1" and "valid_schedule sch2"
    and "NewPackage ext sch1 pkg doc = Inr p" and "NewPackage ext sch2 pkg doc = Inr q"
    and "\<forall>o1 \<in> set (pkgScope pkg). \<forall>o2 \<in> set (pkgScope pkg).
        typeNameType o1 \<noteq> None \<and> typeNameType o1 = typeNameType o2 \<longrightarrow> objName o1 = objName o2"
  shows "p_pkg p = p_pkg q \<and> p_doc p = p_doc q \<and> p_syms p = p_syms q \<and>
         p_consts p = p_consts q \<and> p_vars p = p_vars q \<and>
         mset (p_funcs p) = mset (p_funcs q) \<and>
         image_mset structUpToOrder (mset (p_structs p))
           = image_mset structUpToOrder (mset (p_structs q)) \<and>
         (\<forall>k. map_option objUpToOrder (p_objs p k) = map_option objUpToOrder (p_objs q k))"
proof -
  let ?p0 = "\<lparr>p_pkg = pkg, p_doc = doc, p_syms = newSymtab, p_objs = Map.empty,
        p_consts = [], p_vars = [], p_structs = [], p_funcs = []\<rparr>"
  from assms(3) obtain p1 F S where
    c: "classifyAll ext (scopeNames (pkgScope pkg)) (?p0, [], []) = Inr (p1, F, S)"
    by (auto simp: NewPackage_def process_def split: sum.splits)
  note P = run_canon [OF assms(1,3) c assms(5)]
  note Q = run_canon [OF assms(2,4) c assms(5)]
  have fields: "p_pkg p = p_pkg q" "p_doc p = p_doc q" "p_syms p = p_syms q"
    "p_consts p = p_consts q" "p_vars p = p_vars q"
    by (simp_all only: P(1-5) Q(1-5))
  have fs: "mset (p_funcs p) = mset (p_funcs q)"
    by (simp only: P(6) Q(6))
  have ss: "image_mset structUpToOrder (mset (p_structs p))
           = image_mset structUpToOrder (mset (p_structs q))"
    by (simp only: P(7) Q(7))
  from assms(1,3) obtain E where dE: "distinct (map fst E)"
    and sE: "set E = (\<lambda>f. (f_GoName f, Inr f)) ` set (p_funcs p) \<union>
                 (\<lambda>n. (objName (s_obj (fst n)), Inl n)) ` structUpToOrder ` set (p_structs p)"
    and mE: "\<forall>k. map_option objUpToOrder (p_objs p k) = map_of E k"
    by (rule package_objs_upto)
  from assms(2,4) obtain E' where dE': "distinct (map fst E')"
    and sE': "set E' = (\<lambda>f. (f_GoName f, Inr f)) ` set (p_funcs q) \<union>
                 (\<lambda>n. (objName (s_obj (fst n)), Inl n)) ` structUpToOrder ` set (p_structs q)"
    and mE': "\<forall>k. map_option objUpToOrder (p_objs q k) = map_of E' k"
    by (rule package_objs_upto)
  from fs have "set (p_funcs p) = set (p_funcs q)" by (rule mset_eq_setD)
  moreover have "structUpToOrder ` set (p_structs p) = structUpToOrder ` set (p_structs q)"
  proof -
    have "set_mset (image_mset structUpToOrder (mset (p_structs p)))
        = set_mset (image_mset structUpToOrder (mset (p_structs q)))"
      by (simp only: ss)
    then show ?thesis by simp
  qed
  ultimately have "set E = set E'" by (simp only: sE sE')
  with dE dE' have "map_of E = map_of E'" by (simp add: map_of_inject_set)
  with mE mE' have os: "\<forall>k. map_option objUpToOrder (p_objs p k)
      = map_option objUpToOrder (p_objs q k)"
    by simp
  from fields fs ss os show ?thesis by (intro conjI)
qed

lemma geo2_runs:
  "\<exists>p q. NewPackage geo_ext sched_id geo2_pkg geo_doc = Inr p \<and>
     NewPackage geo_ext sched_rev geo2_pkg geo_doc = Inr q \<and>
     map f_name (p_funcs p) = [''Dist'', ''Reset''] \<and>
     map f_name (p_funcs q) = [''Reset'', ''Dist''] \<and>
     map s_GoName (p_structs p) = [''Point''] \<and> map s_GoName (p_structs q) = [''Point'']"
  by (simp add: model_defs builder_defs ex_defs geo_defs geo2_pkg_def Let_def)

theorem runs_agree_up_to_order_witness:
  "\<exists>p q. NewPackage geo_ext sched_id geo2_pkg geo_doc = Inr p \<and>
     NewPackage geo_ext sched_rev geo2_pkg geo_doc = Inr q \<and>
     map f_name (p_funcs p) = [''Dist'', ''Reset''] \<and>
     map f_name (p_funcs q) = [''Reset'', ''Dist''] \<and>
     mset (p_funcs p) = mset (p_funcs q) \<and> p_consts p = p_consts q \<and>
     image_mset structUpToOrder (mset (p_structs p))
       = image_mset structUpToOrder (mset (p_structs q))"
proof -
  from geo2_runs obtain p q where p: "NewPackage geo_ext sched_id geo2_pkg geo_doc = Inr p"
    and q: "NewPackage geo_ext sched_rev geo2_pkg geo_doc = Inr q"
    and fp: "map f_name (p_funcs p) = [''Dist'', ''Reset'']"
    and fq: "map f_name (p_funcs q) = [''Reset'', ''Dist'']"
    by (elim exE conjE)
  have ty: "\<forall>o1 \<in> set (pkgScope geo2_pkg). \<forall>o2 \<in> set (pkgScope geo2_pkg).
        typeNameType o1 \<noteq> None \<and> typeNameType o1 = typeNameType o2 \<longrightarrow> objName o1 = objName o2"
    by (simp add: geo2_pkg_def geo_pkg_def obj_Point_def topFunc_def)
  note A = runs_agree_up_to_order [OF valid_sched_id valid_sched_rev p q ty]
  from A have a: "mset (p_funcs p) = mset (p_funcs q)" by blast
  from A have b: "p_consts p = p_consts q" by blast
  from A have c: "image_mset structUpToOrder (mset (p_structs p))
       = image_mset structUpToOrder (mset (p_structs q))"
    by blast
  show ?thesis
    by (rule exI [of _ p], rule exI [of _ q]) (simp only: p q fp fq a b c simp_thms)
qed

text \<open>C8 as stated fails: the same module, analysed under two iteration
  orders of the map of functions, gives two function lists in different
  orders, and so two different packages.\<close>

theorem runs_depend_on_order:
  "valid_schedule sched_id \<and> valid_schedule sched_rev \<and>
   funcNames (NewPackage geo_ext sched_id geo2_pkg geo_doc) = [''Dist'', ''Reset''] \<and>
   funcNames (NewPackage geo_ext sched_rev geo2_pkg geo_doc) = [''Reset'', ''Dist''] \<and>
   NewPackage geo_ext sched_id geo2_pkg geo_doc \<noteq> NewPackage geo_ext sched_rev geo2_pkg geo_doc"
proof -
  from geo2_runs obtain p q where p: "NewPackage geo_ext sched_id geo2_pkg geo_doc = Inr p"
    and q: "NewPackage geo_ext sched_rev geo2_pkg geo_doc = Inr q"
    and fp: "map f_name (p_funcs p) = [''Dist'', ''Reset'']"
    and fq: "map f_name (p_funcs q) = [''Reset'', ''Dist'']"
    by (elim exE conjE)
  have a: "funcNames (NewPackage geo_ext sched_id geo2_pkg geo_doc) = [''Dist'', ''Reset'']"
    by (simp add: funcNames_def p fp)
  have b: "funcNames (NewPackage geo_ext sched_rev geo2_pkg geo_doc) = [''Reset'', ''Dist'']"
    by (simp add: funcNames_def q fq)
  have "NewPackage geo_ext sched_id geo2_pkg geo_doc
      \<noteq> NewPackage geo_ext sched_rev geo2_pkg geo_doc"
  proof
    assume "NewPackage geo_ext sched_id geo2_pkg geo_doc
      = NewPackage geo_ext sched_rev geo2_pkg geo_doc"
    then have "funcNames (NewPackage geo_ext sched_id geo2_pkg geo_doc)
      = funcNames (NewPackage geo_ext sched_rev geo2_pkg geo_doc)"
      by simp
    then show False unfolding a b by simp
  qed
  with valid_sched_id valid_sched_rev a b show ?thesis by (intro conjI)
qed

end
